theory Spec2Isabelle
  imports Main "HOL-Library.Sublist" "HOL-Library.Char_ord" "HOL-Library.List_Lexorder"
    "HOL-Library.Word"
begin

unbundle bit_operations_syntax

section \<open>Go library functions used by the gateway\<close>

text \<open>
  Go strings are byte sequences; they are modelled as \<open>string\<close> (a list of 8-bit
  characters). An \<open>error\<close> value is modelled by its message, the result of \<open>err.Error()\<close>.
\<close>

type_synonym error = string

text \<open>\<open>strings.Contains(s, substr)\<close>: \<open>substr\<close> occurs in \<open>s\<close> as a contiguous run.\<close>

definition Contains :: "string \<Rightarrow> string \<Rightarrow> bool" where
  "Contains s substr = sublist substr s"

section \<open>reverseproxy.go: the upstream transport\<close>

text \<open>
  Modelled from the spec: the type \<open>AccessCounter\<close> and its method \<open>Add\<close> are not among
  the sources. The spec describes a mapping from bucket start time to count, where
  \<open>Add()\<close> increments the count of the bucket \<open>now.truncate(unit)\<close>. Times are integers
  (nanoseconds); \<open>Truncate\<close> leaves the time as it is when the unit is not positive.
\<close>

record AccessCounter =
  acc_unit :: int
  count :: "int \<Rightarrow> nat"

definition NewAccessCounter :: "int \<Rightarrow> AccessCounter" where
  "NewAccessCounter u = \<lparr>acc_unit = u, count = (\<lambda>_. 0)\<rparr>"

definition Truncate :: "int \<Rightarrow> int \<Rightarrow> int" where
  "Truncate t d = (if d \<le> 0 then t else t - t mod d)"

definition Add :: "AccessCounter \<Rightarrow> int \<Rightarrow> AccessCounter" where
  "Add c now = (let b = Truncate now (acc_unit c) in c\<lparr>count := (count c)(b := count c b + 1)\<rparr>)"

text \<open>The parts of \<open>http.Cookie\<close>, \<open>http.Request\<close> and \<open>http.Response\<close> that the transport reads
  and writes. \<open>URL\<close> is the rendered \<open>req.URL.String()\<close>; \<open>Cookies\<close> are the cookies of the
  request in header order.\<close>

record cookie =
  cookie_Name :: string
  cookie_Value :: string

record request =
  Method :: string
  URL :: string
  Cookies :: "cookie list"

record response =
  StatusCode :: nat
  Body :: string

definition AuthCookieName :: string where
  "AuthCookieName = ''mirage-ecs-auth''"

definition MethodOptions :: string where
  "MethodOptions = ''OPTIONS''"

definition StatusGatewayTimeout :: nat where
  "StatusGatewayTimeout = 504"

definition StatusForbidden :: nat where
  "StatusForbidden = 403"

text \<open>\<open>req.Cookie(name)\<close>: the first cookie of that name, or \<open>ErrNoCookie\<close>.\<close>

definition Cookie :: "request \<Rightarrow> string \<Rightarrow> error + cookie" where
  "Cookie req name =
     (if name = [] then Inl ''http: named cookie not present''
      else case find (\<lambda>c. cookie_Name c = name) (Cookies req) of
             None \<Rightarrow> Inl ''http: named cookie not present''
           | Some c \<Rightarrow> Inr c)"

text \<open>
  \<open>Transport\<close>: \<open>Counter\<close> is the state of the counter the pointer refers to,
  \<open>Transport_rt\<close> the wrapped \<open>http.RoundTripper\<close> (its answer to a request: an error or a
  response), \<open>AuthCookieValidateFunc\<close> is \<open>None\<close> for a nil function; a validator returns
  \<open>None\<close> for a nil error.
\<close>

record Transport =
  Counter :: AccessCounter
  Transport_rt :: "request \<Rightarrow> error + response"
  Subdomain :: string
  AuthCookieValidateFunc :: "(cookie \<Rightarrow> error option) option"

definition newTimeoutResponse :: "string \<Rightarrow> string \<Rightarrow> error \<Rightarrow> response" where
  "newTimeoutResponse subdomain u err =
     \<lparr>StatusCode = StatusGatewayTimeout,
      Body = subdomain @ '' upstream timeout: '' @ u @ '' '' @ err\<rparr>"

definition newForbiddenResponse :: response where
  "newForbiddenResponse = \<lparr>StatusCode = StatusForbidden, Body = ''Forbidden''\<rparr>"

text \<open>
  The outcome of \<open>RoundTrip\<close>: the counter after the call, whether the wrapped transport
  was called, and the pair \<open>(resp, err)\<close> the method returns (\<open>Inl\<close>: nil response and the
  error; \<open>Inr\<close>: the response and a nil error).
\<close>

record outcome =
  counter_after :: AccessCounter
  contacted :: bool
  returned :: "error + response"

text \<open>The tail of \<open>RoundTrip\<close>, from the call of the wrapped transport on.\<close>

definition forward :: "Transport \<Rightarrow> AccessCounter \<Rightarrow> request \<Rightarrow> outcome" where
  "forward t c req =
     (case Transport_rt t req of
        Inl err \<Rightarrow>
          if Contains err ''timeout''
          then \<lparr>counter_after = c, contacted = True,
                returned = Inr (newTimeoutResponse (Subdomain t) (URL req) err)\<rparr>
          else \<lparr>counter_after = c, contacted = True, returned = Inl err\<rparr>
      | Inr resp \<Rightarrow> \<lparr>counter_after = c, contacted = True, returned = Inr resp\<rparr>)"

definition RoundTrip :: "Transport \<Rightarrow> int \<Rightarrow> request \<Rightarrow> outcome" where
  "RoundTrip t now req =
     (let c = Add (Counter t) now;
          forbidden = \<lparr>counter_after = c, contacted = False, returned = Inr newForbiddenResponse\<rparr>
      in case AuthCookieValidateFunc t of
           None \<Rightarrow> forward t c req
         | Some validate \<Rightarrow>
             if Method req = MethodOptions then forward t c req
             else (case Cookie req AuthCookieName of
                     Inl err \<Rightarrow> forbidden
                   | Inr ck \<Rightarrow>
                       (case validate ck of
                          Some err \<Rightarrow> forbidden
                        | None \<Rightarrow> forward t c req)))"

subsection \<open>Example transports and requests\<close>

definition tp_example :: Transport where
  "tp_example = \<lparr>Counter = NewAccessCounter 1000000000,
     Transport_rt = (\<lambda>r. if URL r = ''http://10.0.0.5:80/slow''
                          then Inl ''net/http: timeout awaiting response headers''
                          else if URL r = ''http://10.0.0.5:80/down''
                          then Inl ''dial tcp 10.0.0.5:80: connect: connection refused''
                          else Inr \<lparr>StatusCode = 200, Body = ''OK''\<rparr>),
     Subdomain = ''feature-x'', AuthCookieValidateFunc = None\<rparr>"

definition validate_example :: "cookie \<Rightarrow> error option" where
  "validate_example c = (if cookie_Value c = ''ok'' then None else Some (''invalid cookie value: '' @ cookie_Value c))"

definition get_example :: "string \<Rightarrow> cookie list \<Rightarrow> request" where
  "get_example u cs = \<lparr>Method = ''GET'', URL = u, Cookies = cs\<rparr>"

definition tp_auth_example :: Transport where
  "tp_auth_example = tp_example\<lparr>AuthCookieValidateFunc := Some validate_example\<rparr>"

definition auth_cookie_example :: "string \<Rightarrow> cookie" where
  "auth_cookie_example v = \<lparr>cookie_Name = ''mirage-ecs-auth'', cookie_Value = v\<rparr>"

section \<open>ecs.go: task information and the purge decision\<close>

text \<open>\<open>types.Tag\<close> of the AWS SDK: both fields are \<open>*string\<close>, \<open>None\<close> is nil.
  \<open>aws.ToString\<close> reads a nil pointer as the empty string.\<close>

record Tag =
  Key :: "string option"
  Value :: "string option"

definition ToString :: "string option \<Rightarrow> string" where
  "ToString p = (case p of None \<Rightarrow> [] | Some s \<Rightarrow> s)"

text \<open>
  \<open>Information\<close>. Times are integers (nanoseconds on the time line); the unexported
  back reference \<open>task\<close> is read by no function modelled here and is left out.
\<close>

record Information =
  ID :: string
  ShortID :: string
  SubDomain :: string
  GitBranch :: string
  TaskDef :: string
  IPAddress :: string
  Created :: int
  LastStatus :: string
  PortMap :: "string \<rightharpoonup> int"
  Env :: "string \<rightharpoonup> string"
  Tags :: "Tag list"

text \<open>
  \<open>time.Duration\<close> is an \<open>int64\<close> count of nanoseconds: a 64-bit word, read as a signed number
  by \<open>sint\<close>; its arithmetic wraps around. \<open>time.Second\<close> is \<open>Second\<close>.
\<close>

type_synonym int64 = "64 word"

definition Second :: int64 where
  "Second = 1000000000"

text \<open>
  An instant of \<open>time.Time\<close> is an integer, its position on the time line in nanoseconds.
  \<open>t.Add(d)\<close> moves the instant by the signed value of \<open>d\<close> and \<open>t.After(u)\<close> compares two
  instants. (\<open>time.Time\<close> counts the seconds in an \<open>int64\<close> and \<open>Add\<close> stops at the ends of that
  range, some 292 billion years away. \<open>time.Now()\<close> lies between the years 1885 and 2157 and a
  \<open>Duration\<close> spans at most 292 years, so \<open>time.Now().Add(d)\<close> is always the exact sum.)
\<close>

definition Time_Add :: "int \<Rightarrow> int64 \<Rightarrow> int" where
  "Time_Add t d = t + sint d"

definition Time_After :: "int \<Rightarrow> int \<Rightarrow> bool" where
  "Time_After t u = (u < t)"

text \<open>
  \<open>PurgeParams\<close>. A compiled \<open>*regexp.Regexp\<close> is modelled by
  its \<open>MatchString\<close> predicate, \<open>None\<close> is the nil pointer. \<open>excludesMap\<close> is a
  \<open>map[string]struct{}\<close>, that is a set of keys.
\<close>

record PurgeParams =
  Duration :: int64
  Excludes :: "string list"
  ExcludeTags :: "string list"
  ExcludeRegexp :: "(string \<Rightarrow> bool) option"
  excludesMap :: "string set"
  excludeTagsMap :: "string \<rightharpoonup> string"

definition statusRunning :: string where
  "statusRunning = ''RUNNING''"

text \<open>The loop over the tags of \<open>ShouldBePurged\<close>: true when it reaches \<open>return false\<close>.\<close>

fun excludedByTag :: "(string \<rightharpoonup> string) \<Rightarrow> Tag list \<Rightarrow> bool" where
  "excludedByTag m [] = False"
| "excludedByTag m (t # ts) =
     (let k = ToString (Key t); v = ToString (Value t)
      in case m k of
           Some ev \<Rightarrow> if ev = v then True else excludedByTag m ts
         | None \<Rightarrow> excludedByTag m ts)"

text \<open>\<open>ShouldBePurged\<close>; \<open>now\<close> is the value of \<open>time.Now()\<close>. The negation \<open>-p.Duration\<close> is
  that of \<open>int64\<close>: the least duration, \<open>-2^63\<close>, is its own negation.\<close>

definition ShouldBePurged :: "Information \<Rightarrow> PurgeParams \<Rightarrow> int \<Rightarrow> bool" where
  "ShouldBePurged info p now =
     (if LastStatus info \<noteq> statusRunning then False
      else if SubDomain info \<in> excludesMap p then False
      else if excludedByTag (excludeTagsMap p) (Tags info) then False
      else if (case ExcludeRegexp p of None \<Rightarrow> False | Some re \<Rightarrow> re (SubDomain info)) then False
      else let begin = Time_Add now (- Duration p)
           in if Time_After (Created info) begin then False else True)"

text \<open>The task of the repository's test \<open>TestShouldBePurged\<close>, created seven minutes
  before \<open>now = 1000 s\<close>, and purge parameters with a duration of five minutes.\<close>

definition second :: int where
  "second = 1000000000"

definition info_example :: Information where
  "info_example = \<lparr>ID = ''0123456789abcdef'', ShortID = ''testshortid'', SubDomain = ''test'',
     GitBranch = ''develop'', TaskDef = ''dummy'', IPAddress = ''127.0.0.1'',
     Created = 1000 * second - 420 * second, LastStatus = ''RUNNING'',
     PortMap = [''http'' \<mapsto> 80], Env = [''ENV'' \<mapsto> ''test''],
     Tags = [\<lparr>Key = Some ''Subdomain'', Value = Some ''test''\<rparr>,
             \<lparr>Key = Some ''DontPurge'', Value = Some ''true''\<rparr>]\<rparr>"

definition params_example :: PurgeParams where
  "params_example = \<lparr>Duration = 300 * Second, Excludes = [], ExcludeTags = [],
     ExcludeRegexp = None, excludesMap = {}, excludeTagsMap = Map.empty\<rparr>"

section \<open>encoding/base64: \<open>URLEncoding\<close>\<close>

text \<open>
  The tag codec calls \<open>base64.URLEncoding\<close> of the Go standard library: the URL alphabet,
  padding with \<open>=\<close>, not strict. Bytes are \<open>char\<close>s, read as numbers by \<open>of_char\<close>; the
  \<open>uint\<close> accumulator \<open>val\<close> is a natural number (it never exceeds 24 bits).
\<close>

definition encodeURL :: string where
  "encodeURL = ''ABCDEFGHIJKLMNOPQRSTUVWXYZabcdefghijklmnopqrstuvwxyz0123456789-_''"

definition padChar :: char where
  "padChar = CHR ''=''"

text \<open>\<open>enc.encode[i]\<close>, the alphabet as a table; every index is masked with \<open>0x3F\<close>.\<close>

definition encode :: "nat \<Rightarrow> char" where
  "encode i = encodeURL ! i"

text \<open>\<open>enc.decodeMap[c]\<close>: the position of \<open>c\<close> in the alphabet, \<open>0xFF\<close> for any other byte.\<close>

fun decodeMapOf :: "string \<Rightarrow> nat \<Rightarrow> char \<Rightarrow> nat" where
  "decodeMapOf [] i c = 255"
| "decodeMapOf (e # es) i c = (if c = e then i else decodeMapOf es (i + 1) c)"

definition decodeMap :: "char \<Rightarrow> nat" where
  "decodeMap c = decodeMapOf encodeURL 0 c"

text \<open>\<open>Encode\<close>: three bytes give four characters; one or two remaining bytes are padded.\<close>

fun Encode :: "string \<Rightarrow> string" where
  "Encode (a # b # c # src) =
     (let val = push_bit 16 (of_char a) OR push_bit 8 (of_char b) OR of_char c :: nat
      in [encode (drop_bit 18 val AND 63), encode (drop_bit 12 val AND 63),
          encode (drop_bit 6 val AND 63), encode (val AND 63)]) @ Encode src"
| "Encode [a, b] =
     (let val = push_bit 16 (of_char a) OR push_bit 8 (of_char b) :: nat
      in [encode (drop_bit 18 val AND 63), encode (drop_bit 12 val AND 63),
          encode (drop_bit 6 val AND 63), padChar])"
| "Encode [a] =
     (let val = push_bit 16 (of_char a) :: nat
      in [encode (drop_bit 18 val AND 63), encode (drop_bit 12 val AND 63), padChar, padChar])"
| "Encode [] = []"

definition EncodeToString :: "string \<Rightarrow> string" where
  "EncodeToString src = Encode src"

text \<open>\<open>CorruptInputError\<close> carries the offset of the offending input byte.\<close>

datatype CorruptInputError = CorruptInputError nat

text \<open>The loop \<open>for si < len(src) && (src[si] == '\n' || src[si] == '\r') { si++ }\<close>,
  on the input from \<open>si\<close> on.\<close>

fun skipNewlines :: "string \<Rightarrow> nat \<Rightarrow> string \<times> nat" where
  "skipNewlines [] si = ([], si)"
| "skipNewlines (c # src) si =
     (if c = CHR 0x0A \<or> c = CHR 0x0D then skipNewlines src (Suc si) else (c # src, si))"

text \<open>The end of \<open>decodeQuantum\<close>: four 6-bit values become three bytes, of which
  \<open>dlen - 1\<close> are written.\<close>

definition convert :: "nat list \<Rightarrow> nat \<Rightarrow> string" where
  "convert dbuf dlen =
     (let val = push_bit 18 (dbuf ! 0) OR push_bit 12 (dbuf ! 1) OR push_bit 6 (dbuf ! 2) OR dbuf ! 3;
          b2 = char_of (drop_bit 0 val); b1 = char_of (drop_bit 8 val);
          b0 = char_of (drop_bit 16 val)
      in if dlen = 4 then [b0, b1, b2] else if dlen = 3 then [b0, b1]
         else if dlen = 2 then [b0] else [])"

text \<open>
  \<open>decodeQuantum\<close> from position \<open>j\<close> of its loop on: \<open>src\<close> is the input from \<open>si\<close> on. The
  result is the bytes written, the input left, the new \<open>si\<close> and the error.
\<close>

fun decodeQuantumFrom ::
  "nat \<Rightarrow> nat list \<Rightarrow> string \<Rightarrow> nat \<Rightarrow> string \<times> string \<times> nat \<times> CorruptInputError option" where
  "decodeQuantumFrom j dbuf [] si =
     (if 4 \<le> j then (convert dbuf 4, [], si, None)
      else if j = 0 then ([], [], si, None)
      else ([], [], si, Some (CorruptInputError (si - j))))"
| "decodeQuantumFrom j dbuf (c # src) si0 =
     (if 4 \<le> j then (convert dbuf 4, c # src, si0, None)
      else let si = Suc si0; out = decodeMap c
      in if out \<noteq> 255 then decodeQuantumFrom (Suc j) (dbuf[j := out]) src si
         else if c = CHR 0x0A \<or> c = CHR 0x0D then decodeQuantumFrom j dbuf src si
         else if c \<noteq> padChar then ([], src, si, Some (CorruptInputError (si - 1)))
         else if j = 0 \<or> j = 1 then ([], src, si, Some (CorruptInputError (si - 1)))
         else if j = 2 then
           (case skipNewlines src si of
              ([], si2) \<Rightarrow> ([], [], si2, Some (CorruptInputError si2))
            | (c2 # src2, si2) \<Rightarrow>
                if c2 \<noteq> padChar then ([], c2 # src2, si2, Some (CorruptInputError (si2 - 1)))
                else (case skipNewlines src2 (Suc si2) of
                        (src3, si3) \<Rightarrow>
                          (convert dbuf j, src3, si3,
                           if src3 \<noteq> [] then Some (CorruptInputError si3) else None)))
         else (case skipNewlines src si of
                 (src3, si3) \<Rightarrow>
                   (convert dbuf j, src3, si3,
                    if src3 \<noteq> [] then Some (CorruptInputError si3) else None)))"

definition decodeQuantum :: "string \<Rightarrow> nat \<Rightarrow> string \<times> string \<times> nat \<times> CorruptInputError option" where
  "decodeQuantum src si = decodeQuantumFrom 0 [0, 0, 0, 0] src si"

lemma skipNewlines_length: "skipNewlines src si = (r, si') \<Longrightarrow> length r \<le> length src"
  by (induction src arbitrary: si) (fastforce split: if_splits)+

lemma decodeQuantumFrom_length:
  "decodeQuantumFrom j dbuf src si = (bs, r, si', e) \<Longrightarrow> length r \<le> length src"
proof (induction j dbuf src si rule: decodeQuantumFrom.induct)
  case (1 j dbuf si)
  then show ?case by (auto split: if_splits)
next
  case (2 j dbuf c src si0)
  show ?case
  proof (cases "4 \<le> j")
    case True
    with "2.prems" show ?thesis by simp
  next
    case j: False
    show ?thesis
    proof (cases "decodeMap c \<noteq> 255")
      case True
      with j "2.prems" have "decodeQuantumFrom (Suc j) (dbuf[j := decodeMap c]) src (Suc si0) = (bs, r, si', e)"
        by (simp add: Let_def)
      from "2.IH"(1) [OF j refl refl True this] show ?thesis by simp
    next
      case out: False
      show ?thesis
      proof (cases "c = CHR 0x0A \<or> c = CHR 0x0D")
        case True
        with j out "2.prems" have "decodeQuantumFrom j dbuf src (Suc si0) = (bs, r, si', e)"
          by (simp add: Let_def)
        from "2.IH"(2) [OF j refl refl out True this] show ?thesis by simp
      next
        case False
        with j out "2.prems" show ?thesis
          by (auto simp: Let_def split: if_splits prod.splits list.splits
              dest!: skipNewlines_length)
      qed
    qed
  qed
qed

lemma decodeQuantumFrom_shorter:
  assumes "decodeQuantumFrom j dbuf (c # src) si = (bs, r, si', e)" and "j < 4"
  shows "length r \<le> length src"
proof (cases "decodeMap c \<noteq> 255 \<or> c = CHR 0x0A \<or> c = CHR 0x0D")
  case True
  with assms obtain j' dbuf' where "decodeQuantumFrom j' dbuf' src (Suc si) = (bs, r, si', e)"
    by (auto simp: Let_def split: if_splits)
  then show ?thesis by (rule decodeQuantumFrom_length)
next
  case False
  with assms show ?thesis
    by (auto simp: Let_def split: if_splits prod.splits list.splits dest!: skipNewlines_length)
qed

text \<open>
  \<open>Decode\<close>: quantum after quantum until the input is used up or an error occurs. (The source
  decodes runs of eight and of four alphabet characters by a fast path that gives what
  \<open>decodeQuantum\<close> gives on them.) The result is the bytes written and the error.
\<close>

function Decode :: "string \<Rightarrow> string \<Rightarrow> nat \<Rightarrow> string \<times> CorruptInputError option" where
  "Decode dst src si =
     (if src = [] then (dst, None)
      else case decodeQuantum src si of
             (bs, r, si', Some e) \<Rightarrow> (dst @ bs, Some e)
           | (bs, r, si', None) \<Rightarrow> Decode (dst @ bs) r si')"
  by pat_completeness auto
termination
proof (relation "measure (\<lambda>(dst, src, si). length src)")
  show "wf (measure (\<lambda>(dst, src, si). length src))" by simp
next
  fix dst src :: string and si :: nat and bs y r z si' e
  assume ne: "src \<noteq> []" and q: "(bs, y) = decodeQuantum src si" and "(r, z) = y"
    and "(si', e) = z" and "e = None"
  then have dq: "decodeQuantum src si = (bs, r, si', e)" by auto
  from ne obtain c cs where src: "src = c # cs" by (cases src) auto
  from dq src have "decodeQuantumFrom 0 [0, 0, 0, 0] (c # cs) si = (bs, r, si', e)"
    by (simp add: decodeQuantum_def)
  from decodeQuantumFrom_shorter [OF this] src
  show "((dst @ bs, r, si'), dst, src, si) \<in> measure (\<lambda>(dst, src, si). length src)"
    by simp
qed

declare Decode.simps [simp del]

definition DecodeString :: "string \<Rightarrow> string \<times> CorruptInputError option" where
  "DecodeString s = Decode [] s 0"

section \<open>ecs.go: the tag-value codec\<close>

definition encodeTagValue :: "string \<Rightarrow> string" where
  "encodeTagValue s = EncodeToString s"

definition decodeTagValue :: "string \<Rightarrow> string" where
  "decodeTagValue s = (case DecodeString s of (d, Some err) \<Rightarrow> s | (d, None) \<Rightarrow> d)"

subsection \<open>The inputs that the decoder accepts\<close>

text \<open>
  \<open>Decode\<close> from position \<open>j\<close> of a quantum on: the rest of that quantum, then the quanta
  after it.
\<close>

definition DecodeFrom ::
  "nat \<Rightarrow> nat list \<Rightarrow> string \<Rightarrow> string \<Rightarrow> nat \<Rightarrow> string \<times> CorruptInputError option" where
  "DecodeFrom j dbuf dst src si =
     (case decodeQuantumFrom j dbuf src si of
        (bs, r, si', Some e) \<Rightarrow> (dst @ bs, Some e)
      | (bs, r, si', None) \<Rightarrow> Decode (dst @ bs) r si')"

text \<open>
  Well-formed base64url text, stated without reference to the decoder: groups of four
  characters of the alphabet, where the last group may end in one or two pad characters.
  \<open>stripNewlines\<close> removes the bytes CR and LF, which are not in the alphabet.
\<close>

definition inAlphabet :: "char \<Rightarrow> bool" where
  "inAlphabet c = (c \<in> set encodeURL)"

definition stripNewlines :: "string \<Rightarrow> string" where
  "stripNewlines s = filter (\<lambda>c. c \<noteq> CHR 0x0A \<and> c \<noteq> CHR 0x0D) s"

fun wellFormed :: "string \<Rightarrow> bool" where
  "wellFormed [] = True"
| "wellFormed (a # b # c # d # rest) =
     (inAlphabet a \<and> inAlphabet b \<and>
      (if rest = []
       then c = padChar \<and> d = padChar \<or> inAlphabet c \<and> (d = padChar \<or> inAlphabet d)
       else inAlphabet c \<and> inAlphabet d \<and> wellFormed rest))"
| "wellFormed _ = False"

text \<open>The same language read character by character, from position \<open>j\<close> of a group.\<close>

fun quantumFrom :: "nat \<Rightarrow> string \<Rightarrow> bool" where
  "quantumFrom j [] = (j = 0 \<or> j = 4)"
| "quantumFrom j (c # s) =
     (if j = 4 then quantumFrom 0 (c # s)
      else if inAlphabet c then quantumFrom (Suc j) s
      else c = padChar \<and> (j = 2 \<and> s = [padChar] \<or> j = 3 \<and> s = []))"

section \<open>ecs.go: listing the tasks of the cluster\<close>

text \<open>
  The parts of the AWS SDK types that \<open>List\<close> reads. A field of pointer type is an
  \<open>option\<close>, \<open>None\<close> being nil; dereferencing nil panics, which the model returns as
  \<open>Inl NilPointerDereference\<close>.
\<close>

datatype panic = NilPointerDereference

record KeyValuePair =
  kv_Name :: "string option"
  kv_Value :: "string option"

record Task =
  TaskArn :: "string option"
  TaskDefinitionArn :: "string option"
  task_LastStatus :: "string option"
  task_Tags :: "Tag list"
  StartedAt :: "int option"
  Attachments :: "KeyValuePair list list"
  Overrides :: "KeyValuePair list list option"

text \<open>
  \<open>Attachments\<close> lists the \<open>Details\<close> of each attachment; \<open>Overrides\<close> is the pointer
  \<open>task.Overrides\<close>, and lists the \<open>Environment\<close> of each of its \<open>ContainerOverrides\<close>.
\<close>

definition deref :: "'a option \<Rightarrow> panic + 'a" where
  "deref p = (case p of None \<Rightarrow> Inl NilPointerDereference | Some v \<Rightarrow> Inr v)"

definition TagManagedBy :: string where
  "TagManagedBy = ''ManagedBy''"

definition TagSubdomain :: string where
  "TagSubdomain = ''Subdomain''"

definition TagValueMirage :: string where
  "TagValueMirage = ''Mirage''"

text \<open>\<open>strings.SplitN\<close> and \<open>strings.Split\<close> for a separator of one byte, which is how
  \<open>shortenArn\<close> calls them. \<open>splitAtMost c n s\<close> cuts \<open>s\<close> at the first \<open>n - 1\<close> separators.\<close>

fun splitAtMost :: "char \<Rightarrow> nat \<Rightarrow> string \<Rightarrow> string list" where
  "splitAtMost c n [] = [[]]"
| "splitAtMost c n (x # xs) =
     (if x = c \<and> 1 < n then [] # splitAtMost c (n - 1) xs
      else case splitAtMost c n xs of
             [] \<Rightarrow> [[x]]
           | p # ps \<Rightarrow> (x # p) # ps)"

definition SplitN :: "string \<Rightarrow> char \<Rightarrow> nat \<Rightarrow> string list" where
  "SplitN s sep n = (if n = 0 then [] else splitAtMost sep n s)"

definition Split :: "string \<Rightarrow> char \<Rightarrow> string list" where
  "Split s sep = splitAtMost sep (length s + 1) s"

definition shortenArn :: "string \<Rightarrow> string" where
  "shortenArn arn =
     (let p = SplitN arn (CHR '':'') 6
      in if length p \<noteq> 6 then []
         else let ps = Split (p ! 5) (CHR ''/'')
              in if length ps = 0 then [] else ps ! (length ps - 1))"

text \<open>The loop of \<open>getTagsFromTask\<close> over the tags.\<close>

fun getTags :: "Tag list \<Rightarrow> string \<Rightarrow> panic + string" where
  "getTags [] name = Inr []"
| "getTags (t # ts) name =
     (case Key t of
        None \<Rightarrow> Inl NilPointerDereference
      | Some k \<Rightarrow> if k = name then deref (Value t) else getTags ts name)"

definition getTagsFromTask :: "Task \<Rightarrow> string \<Rightarrow> panic + string" where
  "getTagsFromTask task name = getTags (task_Tags task) name"

text \<open>The loop over key-value pairs shared by \<open>getIPV4AddressFromTask\<close> and
  \<open>getEnvironmentFromTask\<close>: the value of the first pair of that name.\<close>

fun firstValue :: "KeyValuePair list \<Rightarrow> string \<Rightarrow> panic + string" where
  "firstValue [] name = Inr []"
| "firstValue (d # ds) name =
     (case kv_Name d of
        None \<Rightarrow> Inl NilPointerDereference
      | Some n \<Rightarrow> if n = name then deref (kv_Value d) else firstValue ds name)"

definition getIPV4AddressFromTask :: "Task \<Rightarrow> panic + string" where
  "getIPV4AddressFromTask task =
     (case Attachments task of
        [] \<Rightarrow> Inr []
      | details # _ \<Rightarrow> firstValue details ''privateIPv4Address'')"

definition getEnvironmentFromTask :: "Task \<Rightarrow> string \<Rightarrow> panic + string" where
  "getEnvironmentFromTask task name =
     (case Overrides task of
        None \<Rightarrow> Inl NilPointerDereference
      | Some [] \<Rightarrow> Inr []
      | Some (ov # _) \<Rightarrow> firstValue ov name)"

fun putAll :: "KeyValuePair list \<Rightarrow> (string \<rightharpoonup> string) \<Rightarrow> panic + (string \<rightharpoonup> string)" where
  "putAll [] env = Inr env"
| "putAll (e # es) env =
     (case (kv_Name e, kv_Value e) of
        (Some n, Some v) \<Rightarrow> putAll es (env(n \<mapsto> v))
      | _ \<Rightarrow> Inl NilPointerDereference)"

definition getEnvironmentsFromTask :: "Task \<Rightarrow> panic + (string \<rightharpoonup> string)" where
  "getEnvironmentsFromTask task =
     (case Overrides task of
        None \<Rightarrow> Inl NilPointerDereference
      | Some [] \<Rightarrow> Inr Map.empty
      | Some (ov # _) \<Rightarrow> putAll ov Map.empty)"

text \<open>
  The cluster as \<open>List\<close> sees it: the answers of \<open>ListTasks\<close> (to a cluster, a next token
  and a desired status) and of \<open>DescribeTasks\<close> (to a cluster and task ARNs), and the result of
  \<open>portMapInTask\<close> for a task, which reads the task-definition cache and
  \<open>DescribeTaskDefinition\<close> and is taken here as a function of the task.
\<close>

record ListTasksOutput =
  TaskArns :: "string list"
  NextToken :: "string option"

record ECS =
  Cluster :: string
  ListTasks :: "string \<Rightarrow> string option \<Rightarrow> string \<Rightarrow> error + ListTasksOutput"
  DescribeTasks :: "string \<Rightarrow> string list \<Rightarrow> error + Task list"
  portMapInTask :: "Task \<Rightarrow> panic + (error + (string \<rightharpoonup> int))"

text \<open>The zero \<open>time.Time\<close> (January 1 of year 1, UTC) in nanoseconds before the epoch.\<close>

definition zeroTime :: int where
  "zeroTime = - 62135596800 * 1000000000"

text \<open>The body of the loop over \<open>tasksOut.Tasks\<close>: \<open>None\<close> for a task that is skipped.\<close>

definition taskInformation :: "ECS \<Rightarrow> Task \<Rightarrow> panic + Information option" where
  "taskInformation e task =
     (case getTagsFromTask task TagManagedBy of
        Inl p \<Rightarrow> Inl p
      | Inr managedBy \<Rightarrow>
          if managedBy \<noteq> TagValueMirage then Inr None
          else case (deref (TaskArn task), getTagsFromTask task ''Subdomain'',
                     getEnvironmentFromTask task ''GIT_BRANCH'', deref (TaskDefinitionArn task),
                     getIPV4AddressFromTask task, deref (task_LastStatus task),
                     getEnvironmentsFromTask task) of
                 (Inr arn, Inr sub, Inr branch, Inr tdArn, Inr ip, Inr status, Inr env) \<Rightarrow>
                   (case portMapInTask e task of
                      Inl p \<Rightarrow> Inl p
                    | Inr pm \<Rightarrow>
                        Inr (Some \<lparr>ID = arn, ShortID = shortenArn arn,
                          SubDomain = decodeTagValue sub, GitBranch = branch,
                          TaskDef = shortenArn tdArn, IPAddress = ip,
                          Created = (case StartedAt task of None \<Rightarrow> zeroTime | Some t \<Rightarrow> t),
                          LastStatus = status,
                          PortMap = (case pm of Inl err \<Rightarrow> Map.empty | Inr m \<Rightarrow> m),
                          Env = env, Tags = task_Tags task\<rparr>))
               | _ \<Rightarrow> Inl NilPointerDereference)"

fun appendTasks :: "ECS \<Rightarrow> Task list \<Rightarrow> Information list \<Rightarrow> panic + Information list" where
  "appendTasks e [] infos = Inr infos"
| "appendTasks e (task # tasks) infos =
     (case taskInformation e task of
        Inl p \<Rightarrow> Inl p
      | Inr None \<Rightarrow> appendTasks e tasks infos
      | Inr (Some info) \<Rightarrow> appendTasks e tasks (infos @ [info]))"

text \<open>
  \<open>List\<close>. The loop over the pages runs as long as the service hands out next tokens, so
  the model counts the pages it may still fetch: \<open>None\<close> means that the pages did not end
  within that number. A result \<open>Inr (infos, err)\<close> is the pair that \<open>List\<close> returns.
  \<open>sort.Slice\<close> orders by \<open>SubDomain\<close> (bytewise, as \<open><\<close> on Go strings); it is not stable, and
  the model fixes the order of entries with equal subdomains as \<open>sort_key\<close> leaves it.
\<close>

fun List_pages ::
  "nat \<Rightarrow> ECS \<Rightarrow> string \<Rightarrow> string option \<Rightarrow> Information list \<Rightarrow>
   (panic + Information list \<times> error option) option" where
  "List_pages 0 e desiredStatus nextToken infos = None"
| "List_pages (Suc n) e desiredStatus nextToken infos =
     (case ListTasks e (Cluster e) nextToken desiredStatus of
        Inl err \<Rightarrow> Some (Inr ([], Some (''failed to list tasks: '' @ err)))
      | Inr listOut \<Rightarrow>
          if length (TaskArns listOut) = 0 then Some (Inr ([], None))
          else case DescribeTasks e (Cluster e) (TaskArns listOut) of
                 Inl err \<Rightarrow> Some (Inr (infos, Some (''failed to describe tasks: '' @ err)))
               | Inr tasks \<Rightarrow>
                   (case appendTasks e tasks infos of
                      Inl p \<Rightarrow> Some (Inl p)
                    | Inr infos' \<Rightarrow>
                        (case NextToken listOut of
                           None \<Rightarrow> Some (Inr (sort_key SubDomain infos', None))
                         | Some tok \<Rightarrow> List_pages n e desiredStatus (Some tok) infos')))"

definition ECS_List ::
  "nat \<Rightarrow> ECS \<Rightarrow> string \<Rightarrow> (panic + Information list \<times> error option) option" where
  "ECS_List n e desiredStatus = List_pages n e desiredStatus None []"

subsection \<open>An example cluster\<close>

text \<open>Two pages of tasks: a task of subdomain \<open>b\<close> and a task of another system on the first
  page, a task of subdomain \<open>a\<close> on the second.\<close>

definition task_example :: "string \<Rightarrow> string \<Rightarrow> string \<Rightarrow> Task" where
  "task_example arn owner sub =
     \<lparr>TaskArn = Some arn, TaskDefinitionArn = Some ''arn:aws:ecs:r:1:task-definition/web:3'',
      task_LastStatus = Some ''RUNNING'',
      task_Tags = [\<lparr>Key = Some ''Subdomain'', Value = Some sub\<rparr>,
                   \<lparr>Key = Some ''ManagedBy'', Value = Some owner\<rparr>],
      StartedAt = Some 0, Attachments = [], Overrides = Some []\<rparr>"

definition ecs_example :: ECS where
  "ecs_example =
     \<lparr>Cluster = ''mirage'',
      ListTasks = (\<lambda>cluster token status.
        if token = None then Inr \<lparr>TaskArns = [''t1'', ''t2''], NextToken = Some ''page2''\<rparr>
        else Inr \<lparr>TaskArns = [''t3''], NextToken = None\<rparr>),
      DescribeTasks = (\<lambda>cluster arns.
        if arns = [''t1'', ''t2'']
        then Inr [task_example ''arn:aws:ecs:r:1:task/mirage/t1'' ''Mirage'' ''Yg=='',
                  task_example ''arn:aws:ecs:r:1:task/mirage/t2'' ''Other'' ''Yw=='']
        else Inr [task_example ''arn:aws:ecs:r:1:task/mirage/t3'' ''Mirage'' ''YQ=='']),
      portMapInTask = (\<lambda>task. Inr (Inr Map.empty))\<rparr>"

definition info_listed :: "string \<Rightarrow> string \<Rightarrow> string \<Rightarrow> Information" where
  "info_listed short sub tagsub =
     \<lparr>ID = ''arn:aws:ecs:r:1:task/mirage/'' @ short, ShortID = short, SubDomain = sub,
      GitBranch = [], TaskDef = ''web:3'', IPAddress = [], Created = 0, LastStatus = ''RUNNING'',
      PortMap = Map.empty, Env = Map.empty,
      Tags = [\<lparr>Key = Some ''Subdomain'', Value = Some tagsub\<rparr>,
              \<lparr>Key = Some ''ManagedBy'', Value = Some ''Mirage''\<rparr>]\<rparr>"

section \<open>unicode/utf8 and path: \<open>path.Match\<close>\<close>

text \<open>
  The registry and the subdomain validator call \<open>path.Match\<close> of the Go standard library
  (Go 1.23, as the module file requires). Runes are natural numbers.
\<close>

definition RuneError :: nat where
  "RuneError = 0xFFFD"

text \<open>\<open>utf8.DecodeRuneInString\<close>: the first rune of \<open>s\<close> and its width in bytes; an invalid
  or short encoding gives \<open>(RuneError, 1)\<close>, the empty string \<open>(RuneError, 0)\<close>. The table
  \<open>first\<close> and the accept ranges are written out as comparisons on the first byte.\<close>

definition DecodeRuneInString :: "string \<Rightarrow> nat \<times> nat" where
  "DecodeRuneInString s =
     (if length s < 1 then (RuneError, 0)
      else let s0 = of_char (s ! 0) :: nat
      in if s0 < 0x80 then (s0, 1)
         else if s0 < 0xC2 \<or> 0xF4 < s0 then (RuneError, 1)
         else let sz = (if s0 < 0xE0 then 2 else if s0 < 0xF0 then 3 else 4) :: nat;
                  lo = (if s0 = 0xE0 then 0xA0 else if s0 = 0xF0 then 0x90 else 0x80) :: nat;
                  hi = (if s0 = 0xED then 0x9F else if s0 = 0xF4 then 0x8F else 0xBF) :: nat
         in if length s < sz then (RuneError, 1)
            else let s1 = of_char (s ! 1) :: nat
            in if s1 < lo \<or> hi < s1 then (RuneError, 1)
               else if sz \<le> 2 then (push_bit 6 (s0 AND 0x1F) OR (s1 AND 0x3F), 2)
               else let s2 = of_char (s ! 2) :: nat
               in if s2 < 0x80 \<or> 0xBF < s2 then (RuneError, 1)
                  else if sz \<le> 3
                  then (push_bit 12 (s0 AND 0x0F) OR push_bit 6 (s1 AND 0x3F) OR (s2 AND 0x3F), 3)
                  else let s3 = of_char (s ! 3) :: nat
                  in if s3 < 0x80 \<or> 0xBF < s3 then (RuneError, 1)
                     else (push_bit 18 (s0 AND 0x07) OR push_bit 12 (s1 AND 0x3F) OR
                           push_bit 6 (s2 AND 0x3F) OR (s3 AND 0x3F), 4))"

definition ErrBadPattern :: error where
  "ErrBadPattern = ''syntax error in pattern''"

text \<open>The scanning loop of \<open>scanChunk\<close>: the length of the chunk at the head of the pattern,
  which ends before the first \<open>*\<close> outside brackets.\<close>

fun scanLen :: "bool \<Rightarrow> string \<Rightarrow> nat" where
  "scanLen inrange [] = 0"
| "scanLen inrange (c # cs) =
     (if c = CHR 0x5C then (case cs of [] \<Rightarrow> 1 | c' # cs' \<Rightarrow> 2 + scanLen inrange cs')
      else if c = CHR ''['' then 1 + scanLen True cs
      else if c = CHR '']'' then 1 + scanLen False cs
      else if c = CHR ''*'' then (if \<not> inrange then 0 else 1 + scanLen inrange cs)
      else 1 + scanLen inrange cs)"

definition scanChunk :: "string \<Rightarrow> bool \<times> string \<times> string" where
  "scanChunk pattern =
     (let star = (pattern \<noteq> [] \<and> hd pattern = CHR ''*'');
          p = dropWhile (\<lambda>c. c = CHR ''*'') pattern;
          i = scanLen False p
      in (star, take i p, drop i p))"

text \<open>\<open>getEsc\<close>: a possibly escaped character of a character class; the result is the rune,
  the chunk after it and the error.\<close>

definition getEsc :: "string \<Rightarrow> nat \<times> string \<times> error option" where
  "getEsc chunk =
     (case chunk of
        [] \<Rightarrow> (0, [], Some ErrBadPattern)
      | c # cs \<Rightarrow>
          if c = CHR ''-'' \<or> c = CHR '']'' then (0, [], Some ErrBadPattern)
          else if c = CHR 0x5C \<and> cs = [] then (0, [], Some ErrBadPattern)
          else let chunk' = (if c = CHR 0x5C then cs else chunk);
                   (r, n) = DecodeRuneInString chunk';
                   nchunk = drop n chunk'
               in (r, nchunk,
                   if nchunk = [] then Some ErrBadPattern
                   else if r = RuneError \<and> n = 1 then Some ErrBadPattern else None))"

lemma DecodeRuneInString_width: "s \<noteq> [] \<Longrightarrow> 0 < snd (DecodeRuneInString s)"
  by (simp add: DecodeRuneInString_def Let_def)

lemma getEsc_shorter: "getEsc chunk = (r, nchunk, None) \<Longrightarrow> length nchunk < length chunk"
proof (cases chunk)
  case Nil
  assume "getEsc chunk = (r, nchunk, None)"
  with Nil show ?thesis by (simp add: getEsc_def)
next
  case (Cons c cs)
  assume g: "getEsc chunk = (r, nchunk, None)"
  define chunk' where "chunk' = (if c = CHR 0x5C then cs else chunk)"
  from g Cons have ne: "chunk' \<noteq> []"
    by (auto simp: getEsc_def chunk'_def split: if_splits)
  from g Cons have "nchunk = drop (snd (DecodeRuneInString chunk')) chunk'"
    by (auto simp: getEsc_def chunk'_def Let_def split: if_splits prod.splits)
  with DecodeRuneInString_width [OF ne] ne have "length nchunk < length chunk'" by simp
  moreover have "length chunk' \<le> length chunk" using Cons by (simp add: chunk'_def)
  ultimately show ?thesis by simp
qed

text \<open>The loop of \<open>matchChunk\<close> that parses the ranges of a character class: the rune \<open>r\<close> of
  the name, \<open>match\<close> and \<open>nrange\<close> so far, and the chunk; it gives the error, or \<open>match\<close> and
  the chunk after the closing bracket.\<close>

function classRanges :: "nat \<Rightarrow> bool \<Rightarrow> nat \<Rightarrow> string \<Rightarrow> error + bool \<times> string" where
  "classRanges r match nrange chunk =
     (if chunk \<noteq> [] \<and> hd chunk = CHR '']'' \<and> 0 < nrange then Inr (match, tl chunk)
      else case getEsc chunk of
             (lo, chunk1, Some e) \<Rightarrow> Inl e
           | (lo, chunk1, None) \<Rightarrow>
               (case (if hd chunk1 = CHR ''-'' then getEsc (tl chunk1) else (lo, chunk1, None)) of
                  (hi, chunk2, Some e) \<Rightarrow> Inl e
                | (hi, chunk2, None) \<Rightarrow>
                    classRanges r (match \<or> (lo \<le> r \<and> r \<le> hi)) (nrange + 1) chunk2))"
  by pat_completeness auto
termination
proof (relation "measure (\<lambda>(r, match, nrange, chunk). length chunk)")
  show "wf (measure (\<lambda>(r, match, nrange, chunk). length chunk))" by simp
next
  fix r :: nat and match :: bool and nrange :: nat and chunk :: string
    and lo y chunk1 z hi ya chunk2 za
  assume "(lo, y) = getEsc chunk" "(chunk1, z) = y" "z = None"
    and h: "(hi, ya) = (if hd chunk1 = CHR ''-'' then getEsc (tl chunk1) else (lo, chunk1, None))"
      "(chunk2, za) = ya" "za = None"
  then have g1: "getEsc chunk = (lo, chunk1, None)" by auto
  have "length chunk2 \<le> length chunk1"
  proof (cases "hd chunk1 = CHR ''-''")
    case True
    with h have "getEsc (tl chunk1) = (hi, chunk2, None)" by auto
    from getEsc_shorter [OF this] show ?thesis by simp
  next
    case False
    with h show ?thesis by auto
  qed
  with getEsc_shorter [OF g1]
  show "((r, match \<or> lo \<le> r \<and> r \<le> hi, nrange + 1, chunk2), r, match, nrange, chunk)
        \<in> measure (\<lambda>(r, match, nrange, chunk). length chunk)"
    by simp
qed

declare classRanges.simps [simp del]

lemma classRanges_shorter:
  "classRanges r match nrange chunk = Inr (m, chunk') \<Longrightarrow> length chunk' < length chunk"
proof (induction r match nrange chunk rule: classRanges.induct)
  case (1 r match nrange chunk)
  show ?case
  proof (cases "chunk \<noteq> [] \<and> hd chunk = CHR '']'' \<and> 0 < nrange")
    case True
    with "1.prems" show ?thesis by (auto simp: classRanges.simps)
  next
    case False
    from False "1.prems" obtain lo chunk1 where g1: "getEsc chunk = (lo, chunk1, None)"
      by (subst (asm) classRanges.simps) (auto split: prod.splits option.splits)
    from False "1.prems" g1 obtain hi chunk2 where
      g2: "(if hd chunk1 = CHR ''-'' then getEsc (tl chunk1) else (lo, chunk1, None)) = (hi, chunk2, None)"
      by (subst (asm) classRanges.simps) (auto split: prod.splits option.splits)
    from False "1.prems" g1 g2 have
      rec: "classRanges r (match \<or> (lo \<le> r \<and> r \<le> hi)) (nrange + 1) chunk2 = Inr (m, chunk')"
      by (subst (asm) classRanges.simps) (auto split: prod.splits option.splits)
    have "length chunk2 \<le> length chunk1"
    proof (cases "hd chunk1 = CHR ''-''")
      case True
      with g2 have "getEsc (tl chunk1) = (hi, chunk2, None)" by simp
      from getEsc_shorter [OF this] show ?thesis by simp
    next
      case False
      with g2 show ?thesis by simp
    qed
    moreover from "1.IH" [OF False g1 [symmetric] refl refl g2 [symmetric] refl refl rec]
    have "length chunk' < length chunk2" .
    moreover note getEsc_shorter [OF g1]
    ultimately show ?thesis by simp
  qed
qed

text \<open>
  \<open>matchChunk\<close>, from a point of its loop over the chunk: \<open>failed\<close> says whether the match has
  already failed (the loop then only checks that the chunk is well formed). The result is
  the rest of the name, \<open>ok\<close> and the error.
\<close>

function matchChunkFrom :: "bool \<Rightarrow> string \<Rightarrow> string \<Rightarrow> string \<times> bool \<times> error option" where
  "matchChunkFrom failed0 [] s = (if failed0 then ([], False, None) else (s, True, None))"
| "matchChunkFrom failed0 (c # chunk) s =
     (let failed = (failed0 \<or> s = [])
      in if c = CHR ''['' then
           (let r = (if \<not> failed then fst (DecodeRuneInString s) else 0);
                s' = (if \<not> failed then drop (snd (DecodeRuneInString s)) s else s);
                negated = (chunk \<noteq> [] \<and> hd chunk = CHR ''^'');
                chunk1 = (if negated then tl chunk else chunk)
            in case classRanges r False 0 chunk1 of
                 Inl e \<Rightarrow> ([], False, Some e)
               | Inr (match, chunk2) \<Rightarrow> matchChunkFrom (failed \<or> match = negated) chunk2 s')
         else if c = CHR ''?'' then
           (if \<not> failed
            then matchChunkFrom (hd s = CHR ''/'') chunk (drop (snd (DecodeRuneInString s)) s)
            else matchChunkFrom failed chunk s)
         else if c = CHR 0x5C then
           (case chunk of
              [] \<Rightarrow> ([], False, Some ErrBadPattern)
            | c' # chunk' \<Rightarrow>
                if \<not> failed then matchChunkFrom (c' \<noteq> hd s) chunk' (tl s)
                else matchChunkFrom failed chunk' s)
         else (if \<not> failed then matchChunkFrom (c \<noteq> hd s) chunk (tl s)
               else matchChunkFrom failed chunk s))"
  by pat_completeness auto
termination
proof (relation "measure (\<lambda>(failed, chunk, s). length chunk)", goal_cases)
  case 1
  show ?case by simp
next
  case (2 failed0 c chunk s failed r s' negated chunk1 x match chunk2)
  then have "classRanges r False 0 chunk1 = Inr (match, chunk2)" by simp
  from classRanges_shorter [OF this] 2 show ?case by (auto split: if_splits)
qed simp_all

declare matchChunkFrom.simps [simp del]

definition matchChunk :: "string \<Rightarrow> string \<Rightarrow> string \<times> bool \<times> error option" where
  "matchChunk chunk s = matchChunkFrom False chunk s"

lemma scanLen_pos: "c \<noteq> CHR ''*'' \<Longrightarrow> 0 < scanLen inrange (c # cs)"
  by (simp split: list.splits)

lemma scanChunk_shorter:
  assumes "pattern \<noteq> []" and "scanChunk pattern = (star, chunk, rest)"
  shows "length rest < length pattern"
proof -
  define p where "p = dropWhile (\<lambda>c. c = CHR ''*'') pattern"
  from assms(2) have rest: "rest = drop (scanLen False p) p"
    by (simp add: scanChunk_def p_def Let_def)
  show ?thesis
  proof (cases "hd pattern = CHR ''*''")
    case True
    with assms(1) have "length p < length pattern"
      by (cases pattern) (simp_all add: p_def le_imp_less_Suc length_dropWhile_le)
    with rest show ?thesis by simp
  next
    case False
    with assms(1) obtain c cs where pc: "pattern = c # cs" "c \<noteq> CHR ''*''"
      by (cases pattern) auto
    then have "p = c # cs" by (simp add: p_def)
    with scanLen_pos [OF pc(2), of False cs] rest pc show ?thesis by simp
  qed
qed

text \<open>The loop of \<open>Match\<close> that retries the chunk after a star, skipping \<open>i + 1\<close> bytes of the
  name but no slash; \<open>final\<close> says that no pattern is left after the chunk.\<close>

datatype found = Found string | Bad error | NotFound

fun starLoop :: "string \<Rightarrow> bool \<Rightarrow> string \<Rightarrow> found" where
  "starLoop chunk final [] = NotFound"
| "starLoop chunk final (c # name) =
     (if c = CHR ''/'' then NotFound
      else case matchChunk chunk name of
             (t, ok, err) \<Rightarrow>
               if ok then (if final \<and> t \<noteq> [] then starLoop chunk final name else Found t)
               else (case err of Some e \<Rightarrow> Bad e | None \<Rightarrow> starLoop chunk final name))"

text \<open>The loop of \<open>Match\<close> that checks the rest of the pattern for syntax errors before
  \<open>false\<close> is returned.\<close>

function checkRest :: "string \<Rightarrow> error option" where
  "checkRest pattern =
     (if pattern = [] then None
      else case scanChunk pattern of
             (star, chunk, rest) \<Rightarrow>
               (case matchChunk chunk [] of
                  (t, ok, Some e) \<Rightarrow> Some e
                | (t, ok, None) \<Rightarrow> checkRest rest))"
  by pat_completeness auto
termination
proof (relation "measure length")
  show "wf (measure length)" by simp
next
  fix pattern :: string and star y chunk rest
  assume "pattern \<noteq> []" and "(star, y) = scanChunk pattern" and "(chunk, rest) = y"
  then have "scanChunk pattern = (star, chunk, rest)" by simp
  from scanChunk_shorter [OF \<open>pattern \<noteq> []\<close> this]
  show "(rest, pattern) \<in> measure length" by simp
qed

declare checkRest.simps [simp del]

text \<open>\<open>path.Match\<close>: the pair \<open>(matched, err)\<close>.\<close>

function Match :: "string \<Rightarrow> string \<Rightarrow> bool \<times> error option" where
  "Match pattern name =
     (if pattern = [] then (name = [], None)
      else case scanChunk pattern of
             (star, chunk, rest) \<Rightarrow>
               if star \<and> chunk = [] then (CHR ''/'' \<notin> set name, None)
               else case matchChunk chunk name of
                      (t, ok, err) \<Rightarrow>
                        if ok \<and> (t = [] \<or> rest \<noteq> []) then Match rest t
                        else case err of
                               Some e \<Rightarrow> (False, Some e)
                             | None \<Rightarrow>
                                 (case (if star then starLoop chunk (rest = []) name else NotFound) of
                                    Found t' \<Rightarrow> Match rest t'
                                  | Bad e \<Rightarrow> (False, Some e)
                                  | NotFound \<Rightarrow> (False, checkRest rest)))"
  by pat_completeness auto
termination
proof (relation "measure (\<lambda>(pattern, name). length pattern)")
  show "wf (measure (\<lambda>(pattern, name). length pattern))" by simp
next
  fix pattern name :: string and star y chunk rest t
  assume "pattern \<noteq> []" and "(star, y) = scanChunk pattern" and "(chunk, rest) = y"
  then have "scanChunk pattern = (star, chunk, rest)" by simp
  from scanChunk_shorter [OF \<open>pattern \<noteq> []\<close> this]
  show "((rest, t), pattern, name) \<in> measure (\<lambda>(pattern, name). length pattern)" by simp
next
  fix pattern name :: string and star y chunk rest t'
  assume "pattern \<noteq> []" and "(star, y) = scanChunk pattern" and "(chunk, rest) = y"
  then have "scanChunk pattern = (star, chunk, rest)" by simp
  from scanChunk_shorter [OF \<open>pattern \<noteq> []\<close> this]
  show "((rest, t'), pattern, name) \<in> measure (\<lambda>(pattern, name). length pattern)" by simp
qed

declare Match.simps [simp del]

section \<open>The subdomain validator\<close>

text \<open>
  \<open>DNSNameRegexpWithPattern\<close> is
  \<^verbatim>\<open>^[a-zA-Z*?\[\]][a-zA-Z0-9-*?\[\]]{0,61}[a-zA-Z0-9*?\[\]]$\<close>:
  anchored at both ends, a sequence of three character classes, the second one repeated 0 to 61
  times. A regular expression of this shape is a list of pieces (class, least and greatest
  number of repetitions), and \<open>matchPieces\<close> matches a whole string against it.
\<close>

datatype piece = Piece "char \<Rightarrow> bool" nat nat

fun matchPieces :: "piece list \<Rightarrow> string \<Rightarrow> bool" where
  "matchPieces [] s = (s = [])"
| "matchPieces (Piece cls lo hi # ps) [] = (lo = 0 \<and> matchPieces ps [])"
| "matchPieces (Piece cls lo hi # ps) (c # cs) =
     ((if 0 < hi \<and> cls c then matchPieces (Piece cls (lo - 1) (hi - 1) # ps) cs else False) \<or>
      (if lo = 0 then matchPieces ps (c # cs) else False))"

text \<open>A range \<open>lo-hi\<close> of a character class: the bytes from \<open>lo\<close> to \<open>hi\<close>.\<close>

definition inRange :: "char \<Rightarrow> char \<Rightarrow> char \<Rightarrow> bool" where
  "inRange lo hi c = (lo \<le> c \<and> c \<le> hi)"

definition isLetter :: "char \<Rightarrow> bool" where
  "isLetter c = (inRange (CHR ''a'') (CHR ''z'') c \<or> inRange (CHR ''A'') (CHR ''Z'') c)"

definition isDigit :: "char \<Rightarrow> bool" where
  "isDigit c = inRange (CHR ''0'') (CHR ''9'') c"

definition isGlobMeta :: "char \<Rightarrow> bool" where
  "isGlobMeta c = (c = CHR ''*'' \<or> c = CHR ''?'' \<or> c = CHR ''['' \<or> c = CHR '']'')"

definition DNSNameRegexpWithPattern :: "piece list" where
  "DNSNameRegexpWithPattern =
     [Piece (\<lambda>c. isLetter c \<or> isGlobMeta c) 1 1,
      Piece (\<lambda>c. isLetter c \<or> isDigit c \<or> c = CHR ''-'' \<or> isGlobMeta c) 0 61,
      Piece (\<lambda>c. isLetter c \<or> isDigit c \<or> isGlobMeta c) 1 1]"

definition MatchString :: "piece list \<Rightarrow> string \<Rightarrow> bool" where
  "MatchString re s = matchPieces re s"

text \<open>\<open>validateSubdomain\<close>: \<open>None\<close> is the nil error.\<close>

definition validateSubdomain :: "string \<Rightarrow> error option" where
  "validateSubdomain s =
     (if s = [] then Some ''subdomain is empty''
      else if length s < 2 then Some ''subdomain is too short''
      else if length s > 63 then Some ''subdomain is too long''
      else if \<not> MatchString DNSNameRegexpWithPattern s
        then Some (''subdomain '' @ s @ '' includes invalid characters'')
      else case snd (Match s ''x'') of Some err \<Rightarrow> Some err | None \<Rightarrow> None)"

section \<open>reverseproxy.go: the registry of proxy handlers\<close>

text \<open>\<open>strconv.Itoa\<close> and \<open>net.JoinHostPort\<close>.\<close>

fun digits :: "nat \<Rightarrow> string" where
  "digits n = (if n < 10 then [char_of (48 + n)] else digits (n div 10) @ [char_of (48 + n mod 10)])"

declare digits.simps [simp del]

definition Itoa :: "int \<Rightarrow> string" where
  "Itoa i = (if i < 0 then CHR ''-'' # digits (nat (- i)) else digits (nat i))"

definition JoinHostPort :: "string \<Rightarrow> string \<Rightarrow> string" where
  "JoinHostPort host port =
     (if CHR '':'' \<in> set host then ''['' @ host @ '']:'' @ port else host @ '':'' @ port)"

text \<open>
  The parts of \<open>Config\<close> that the registry reads: \<open>cfg.Listen.HTTP\<close>, \<open>cfg.localMode\<close>,
  \<open>cfg.Network.ProxyTimeout\<close> and the method value \<open>cfg.Auth.ValidateAuthCookie\<close> (whose code is
  not among the sources; it is a parameter here).
\<close>

record PortMapping =
  ListenPort :: int
  TargetPort :: int
  RequireAuthCookie :: bool

record Config =
  Listen_HTTP :: "PortMapping list"
  localMode :: bool
  Network_ProxyTimeout :: int
  Auth_ValidateAuthCookie :: "cookie \<Rightarrow> error option"

text \<open>
  The \<open>http.Handler\<close> that \<open>AddSubdomain\<close> builds: a single-host reverse proxy to \<open>destUrl\<close>
  whose transport is a \<open>Transport\<close> for the subdomain (its counter is the one registered
  for the subdomain).
\<close>

record upstream =
  destUrl :: string
  tp_Subdomain :: string
  tp_ProxyTimeout :: int
  tp_AuthCookieValidateFunc :: "(cookie \<Rightarrow> error option) option"

text \<open>
  The package variable \<open>proxyHandlerLifetime\<close> is state shared by the whole process: it starts
  at 30 seconds and \<open>NewReverseProxy\<close> assigns to it. A function that reads it takes its value
  at the time of the call as the argument \<open>lifetime\<close>; \<open>NewReverseProxy\<close> returns the value it
  leaves in the variable. Times and durations are in nanoseconds.
\<close>

definition proxyHandlerLifetime_init :: int where
  "proxyHandlerLifetime_init = 30 * 1000000000"

text \<open>
  \<open>proxyHandler\<close>. The one-shot timer is modelled by the instant at which it fires: set to
  \<open>now + proxyHandlerLifetime\<close> by \<open>time.NewTimer\<close> and by \<open>Reset\<close>. \<open>alive\<close> polls the timer's
  channel: it is false once the timer has fired. (The poll takes the value out of the channel;
  both callers delete the handler as soon as \<open>alive\<close> is false, so a handler is never polled
  again after that.) The method \<open>extend\<close> is \<open>extend_timer\<close> here, since every record has an
  operation called \<open>extend\<close>.
\<close>

record proxyHandler =
  handler :: upstream
  timer :: int

definition newProxyHandler :: "upstream \<Rightarrow> int \<Rightarrow> int \<Rightarrow> proxyHandler" where
  "newProxyHandler h now lifetime = \<lparr>handler = h, timer = now + lifetime\<rparr>"

definition alive :: "proxyHandler \<Rightarrow> int \<Rightarrow> bool" where
  "alive h now = (now < timer h)"

definition extend_timer :: "proxyHandler \<Rightarrow> int \<Rightarrow> int \<Rightarrow> proxyHandler" where
  "extend_timer h now lifetime = h\<lparr>timer := now + lifetime\<rparr>"

text \<open>\<open>proxyHandlers\<close> is \<open>map[int]map[string]*proxyHandler\<close>; \<open>None\<close> is a missing key (a nil
  inner map).\<close>

type_synonym proxyHandlers = "int \<rightharpoonup> (string \<rightharpoonup> proxyHandler)"

text \<open>
  The loop of \<open>Handler\<close> over \<open>ph[port]\<close>. Go visits the keys of a map in an order of its
  choice; \<open>order\<close> is that order. A key that is not in the map is not visited.
\<close>

fun Handler_range ::
  "(string \<rightharpoonup> proxyHandler) \<Rightarrow> int \<Rightarrow> string list \<Rightarrow> upstream option \<times> (string \<rightharpoonup> proxyHandler)" where
  "Handler_range m now [] = (None, m)"
| "Handler_range m now (ipaddress # order) =
     (case m ipaddress of
        None \<Rightarrow> Handler_range m now order
      | Some h \<Rightarrow>
          if alive h now then (Some (handler h), m)
          else Handler_range (m(ipaddress := None)) now order)"

text \<open>\<open>Handler\<close>: the handler found (\<open>None\<close> for \<open>nil, false\<close>) and the map after the call.\<close>

definition Handler ::
  "proxyHandlers \<Rightarrow> int \<Rightarrow> int \<Rightarrow> string list \<Rightarrow> upstream option \<times> proxyHandlers" where
  "Handler ph port now order =
     (case ph port of
        None \<Rightarrow> (None, ph)
      | Some handlers \<Rightarrow>
          if dom handlers = {} then (None, ph)
          else case Handler_range handlers now order of
                 (found, handlers') \<Rightarrow> (found, ph(port \<mapsto> handlers')))"

definition exists ::
  "proxyHandlers \<Rightarrow> int \<Rightarrow> string \<Rightarrow> int \<Rightarrow> int \<Rightarrow> bool \<times> proxyHandlers" where
  "exists ph port addr now lifetime =
     (case ph port of
        None \<Rightarrow> (False, ph)
      | Some handlers \<Rightarrow>
          (case handlers addr of
             None \<Rightarrow> (False, ph)
           | Some h \<Rightarrow>
               if alive h now then (True, ph(port \<mapsto> handlers(addr \<mapsto> extend_timer h now lifetime)))
               else (False, ph(port \<mapsto> handlers(addr := None)))))"

definition add :: "proxyHandlers \<Rightarrow> int \<Rightarrow> string \<Rightarrow> upstream \<Rightarrow> int \<Rightarrow> int \<Rightarrow> proxyHandlers" where
  "add ph port ipaddress h now lifetime =
     (let handlers = (case ph port of None \<Rightarrow> Map.empty | Some m \<Rightarrow> m)
      in ph(port \<mapsto> handlers(ipaddress \<mapsto> newProxyHandler h now lifetime)))"

text \<open>\<open>ReverseProxy\<close>: the state under the lock.\<close>

record ReverseProxy =
  cfg :: Config
  domains :: "string list"
  domainMap :: "string \<rightharpoonup> proxyHandlers"
  accessCounters :: "string \<rightharpoonup> AccessCounter"
  accessCounterUnit :: int

text \<open>
  \<open>NewReverseProxy\<close>: the new registry and the value of \<open>proxyHandlerLifetime\<close> after the call.
  In local mode the constructor sets the variable to ten years, for every registry of the
  process; otherwise it leaves the variable as it finds it.
\<close>

definition NewReverseProxy :: "Config \<Rightarrow> int \<Rightarrow> ReverseProxy \<times> int" where
  "NewReverseProxy c lifetime =
     (\<lparr>cfg = c, domains = [], domainMap = Map.empty, accessCounters = Map.empty,
       accessCounterUnit = (if localMode c then 1000000000 * 10 else 60 * 1000000000)\<rparr>,
      if localMode c then 3600 * 1000000000 * 24 * 365 * 10 else lifetime)"

text \<open>
  \<open>FindHandler\<close>. The handlers found for the subdomain are a reference into the registry, so
  what \<open>Handler\<close> deletes is deleted in \<open>domainMap\<close>, under the name that was resolved. The
  result is the handler (\<open>None\<close> for nil) and the registry after the call.
\<close>

definition FindHandler ::
  "ReverseProxy \<Rightarrow> int \<Rightarrow> string \<Rightarrow> int \<Rightarrow> string list \<Rightarrow> upstream option \<times> ReverseProxy" where
  "FindHandler r now subdomain port order =
     (let resolved =
        (case domainMap r subdomain of
           Some ph \<Rightarrow> Some (subdomain, ph)
         | None \<Rightarrow>
             (case find (\<lambda>name. fst (Match name subdomain)) (domains r) of
                None \<Rightarrow> None
              | Some name \<Rightarrow>
                  (case domainMap r name of None \<Rightarrow> None | Some ph \<Rightarrow> Some (name, ph))))
      in case resolved of
           None \<Rightarrow> (None, r)
         | Some (name, ph) \<Rightarrow>
             (case Handler ph port now order of
                (found, ph') \<Rightarrow> (found, r\<lparr>domainMap := (domainMap r)(name \<mapsto> ph')\<rparr>)))"

text \<open>
  The loop of \<open>AddSubdomain\<close> over \<open>cfg.Listen.HTTP\<close>, on the handlers \<open>ph\<close> and the flag
  \<open>proxy\<close>. \<open>Parse\<close> is \<open>url.Parse\<close>.
\<close>

fun AddSubdomain_listen ::
  "ReverseProxy \<Rightarrow> int \<Rightarrow> (string \<Rightarrow> error + string) \<Rightarrow> int \<Rightarrow> string \<Rightarrow> string \<Rightarrow> int \<Rightarrow>
   PortMapping list \<Rightarrow> proxyHandlers \<Rightarrow> bool \<Rightarrow> proxyHandlers \<times> bool" where
  "AddSubdomain_listen r lifetime Parse now subdomain addr targetPort [] ph proxy = (ph, proxy)"
| "AddSubdomain_listen r lifetime Parse now subdomain addr targetPort (v # vs) ph proxy =
     (if TargetPort v \<noteq> targetPort \<and> \<not> localMode (cfg r)
      then AddSubdomain_listen r lifetime Parse now subdomain addr targetPort vs ph proxy
      else case exists ph (ListenPort v) addr now lifetime of
             (True, ph') \<Rightarrow> AddSubdomain_listen r lifetime Parse now subdomain addr targetPort vs ph' True
           | (False, ph') \<Rightarrow>
               (case Parse (''http://'' @ addr) of
                  Inl err \<Rightarrow> AddSubdomain_listen r lifetime Parse now subdomain addr targetPort vs ph' proxy
                | Inr url \<Rightarrow>
                    AddSubdomain_listen r lifetime Parse now subdomain addr targetPort vs
                      (add ph' (ListenPort v) addr
                         \<lparr>destUrl = url, tp_Subdomain = subdomain,
                          tp_ProxyTimeout = Network_ProxyTimeout (cfg r),
                          tp_AuthCookieValidateFunc =
                            (if RequireAuthCookie v then Some (Auth_ValidateAuthCookie (cfg r))
                             else None)\<rparr>
                         now lifetime)
                      True))"

text \<open>
  \<open>AddSubdomain\<close>: the registry after the call and whether the warning was logged. The
  handlers of a subdomain that is already registered are changed in place, also when no proxy
  is created; a map made for a new subdomain is dropped in that case.
\<close>

definition AddSubdomain ::
  "ReverseProxy \<Rightarrow> int \<Rightarrow> (string \<Rightarrow> error + string) \<Rightarrow> int \<Rightarrow> string \<Rightarrow> string \<Rightarrow> int \<Rightarrow>
   ReverseProxy \<times> bool" where
  "AddSubdomain r lifetime Parse now subdomain ipaddress targetPort =
     (let addr = JoinHostPort ipaddress (Itoa targetPort);
          ph = (case domainMap r subdomain of Some ph0 \<Rightarrow> ph0 | None \<Rightarrow> Map.empty);
          counters = (case accessCounters r subdomain of
                        Some c \<Rightarrow> accessCounters r
                      | None \<Rightarrow> (accessCounters r)(subdomain \<mapsto> NewAccessCounter (accessCounterUnit r)))
      in case AddSubdomain_listen r lifetime Parse now subdomain addr targetPort (Listen_HTTP (cfg r)) ph False of
           (ph', proxy) \<Rightarrow>
             if \<not> proxy
             then (r\<lparr>accessCounters := counters,
                     domainMap := (case domainMap r subdomain of
                                     Some ph0 \<Rightarrow> (domainMap r)(subdomain \<mapsto> ph')
                                   | None \<Rightarrow> domainMap r)\<rparr>, True)
             else (r\<lparr>accessCounters := counters,
                     domainMap := (domainMap r)(subdomain \<mapsto> ph'),
                     domains := (if subdomain \<in> set (domains r) then domains r
                                 else domains r @ [subdomain])\<rparr>, False))"

text \<open>The chained lookups \<open>ph[port][addr]\<close> and \<open>r.domainMap[name][port][addr]\<close>; a missing
  key at any level gives nil.\<close>

definition lookup :: "proxyHandlers \<Rightarrow> int \<Rightarrow> string \<Rightarrow> proxyHandler option" where
  "lookup ph port addr = (case ph port of None \<Rightarrow> None | Some handlers \<Rightarrow> handlers addr)"

definition registered :: "ReverseProxy \<Rightarrow> string \<Rightarrow> int \<Rightarrow> string \<Rightarrow> proxyHandler option" where
  "registered r name port addr =
     (case domainMap r name of None \<Rightarrow> None | Some ph \<Rightarrow> lookup ph port addr)"

text \<open>The name under which \<open>FindHandler\<close> looks a subdomain up: the subdomain itself when
  it is a key of \<open>domainMap\<close>, otherwise the first name in \<open>domains\<close> whose pattern matches it.\<close>

definition resolves :: "ReverseProxy \<Rightarrow> string \<Rightarrow> string \<Rightarrow> bool" where
  "resolves r subdomain name =
     (if domainMap r subdomain \<noteq> None then name = subdomain
      else find (\<lambda>n. fst (Match n subdomain)) (domains r) = Some name)"

subsection \<open>Example registries\<close>

text \<open>A gateway that listens on 8080 for target port 80 and on 8081 for target port 81, the
  registry that \<open>NewReverseProxy\<close> makes for it in a fresh process, the value that this leaves
  in \<open>proxyHandlerLifetime\<close>, and the registries that \<open>AddSubdomain\<close> builds from the empty one at
  time 0.\<close>

definition cfg_example :: Config where
  "cfg_example =
     \<lparr>Listen_HTTP = [\<lparr>ListenPort = 8080, TargetPort = 80, RequireAuthCookie = False\<rparr>,
                     \<lparr>ListenPort = 8081, TargetPort = 81, RequireAuthCookie = False\<rparr>],
      localMode = False, Network_ProxyTimeout = 0, Auth_ValidateAuthCookie = validate_example\<rparr>"

definition Parse_example :: "string \<Rightarrow> error + string" where
  "Parse_example u = Inr u"

definition upstream_example :: "string \<Rightarrow> string \<Rightarrow> upstream" where
  "upstream_example subdomain addr =
     \<lparr>destUrl = ''http://'' @ addr, tp_Subdomain = subdomain, tp_ProxyTimeout = 0,
      tp_AuthCookieValidateFunc = None\<rparr>"

definition registry_new :: ReverseProxy where
  "registry_new = fst (NewReverseProxy cfg_example proxyHandlerLifetime_init)"

definition lifetime_example :: int where
  "lifetime_example = snd (NewReverseProxy cfg_example proxyHandlerLifetime_init)"

definition registry_one :: ReverseProxy where
  "registry_one = fst (AddSubdomain registry_new lifetime_example Parse_example 0
     ''feature-x'' ''10.0.0.5'' 80)"

definition registry_two :: ReverseProxy where
  "registry_two =
     fst (AddSubdomain
       (fst (AddSubdomain registry_new lifetime_example Parse_example 0 ''pr-1'' ''10.0.0.5'' 81))
       lifetime_example Parse_example 0 ''pr-*'' ''10.0.0.6'' 80)"

section \<open>Verified properties\<close>

subsection \<open>The upstream transport\<close>

lemma Contains_mid: "Contains (a @ b @ c) b"
  by (simp add: Contains_def)

lemma timeout_body:
  "Contains (Body (newTimeoutResponse s u e)) s \<and>
   Contains (Body (newTimeoutResponse s u e)) u \<and>
   Contains (Body (newTimeoutResponse s u e)) e"
proof -
  have "Contains ([] @ s @ ('' upstream timeout: '' @ u @ '' '' @ e)) s"
    by (rule Contains_mid)
  moreover have "Contains ((s @ '' upstream timeout: '') @ u @ ('' '' @ e)) u"
    by (rule Contains_mid)
  moreover have "Contains ((s @ '' upstream timeout: '' @ u @ '' '') @ e @ []) e"
    by (rule Contains_mid)
  ultimately show ?thesis by (simp add: newTimeoutResponse_def)
qed

lemma RoundTrip_cases:
  "RoundTrip t now req = forward t (Add (Counter t) now) req \<or>
   RoundTrip t now req =
     \<lparr>counter_after = Add (Counter t) now, contacted = False, returned = Inr newForbiddenResponse\<rparr>"
  by (simp add: RoundTrip_def Let_def split: option.splits sum.splits)

text \<open>
  Claim C6. Whenever the wrapped transport is called and answers with an error, \<open>RoundTrip\<close>
  returns, with a nil error, a response of status 504 whose body contains the subdomain, the
  request URL and the error message if the message contains \<open>timeout\<close>; any other error of
  the wrapped transport is returned as it is.
\<close>

theorem RoundTrip_transport_error:
  assumes "contacted (RoundTrip t now req)"
    and "Transport_rt t req = Inl err"
  shows "if Contains err ''timeout''
         then \<exists>resp. returned (RoundTrip t now req) = Inr resp \<and> StatusCode resp = 504 \<and>
                Contains (Body resp) (Subdomain t) \<and> Contains (Body resp) (URL req) \<and>
                Contains (Body resp) err
         else returned (RoundTrip t now req) = Inl err"
proof -
  from assms(1) RoundTrip_cases [of t now req]
  have fw: "RoundTrip t now req = forward t (Add (Counter t) now) req"
    by auto
  show ?thesis
  proof (cases "Contains err ''timeout''")
    case True
    with assms(2) have "returned (forward t (Add (Counter t) now) req) =
        Inr (newTimeoutResponse (Subdomain t) (URL req) err)"
      by (simp add: forward_def)
    with True fw timeout_body [of "Subdomain t" "URL req" err] show ?thesis
      by (simp add: newTimeoutResponse_def StatusGatewayTimeout_def)
  next
    case False
    with assms(2) fw show ?thesis by (simp add: forward_def)
  qed
qed

theorem RoundTrip_transport_error_witness:
  "(\<exists>resp. returned (RoundTrip tp_example 5 (get_example ''http://10.0.0.5:80/slow'' [])) = Inr resp \<and>
      StatusCode resp = 504 \<and>
      Contains (Body resp) ''feature-x'' \<and>
      Contains (Body resp) ''http://10.0.0.5:80/slow'' \<and>
      Contains (Body resp) ''net/http: timeout awaiting response headers'') \<and>
   returned (RoundTrip tp_example 5 (get_example ''http://10.0.0.5:80/down'' [])) =
     Inl ''dial tcp 10.0.0.5:80: connect: connection refused''"
proof -
  let ?slow = "get_example ''http://10.0.0.5:80/slow'' []"
  let ?down = "get_example ''http://10.0.0.5:80/down'' []"
  have c1: "contacted (RoundTrip tp_example 5 ?slow)"
    by (simp add: RoundTrip_def forward_def tp_example_def get_example_def Let_def)
  have e1: "Transport_rt tp_example ?slow = Inl ''net/http: timeout awaiting response headers''"
    by (simp add: tp_example_def get_example_def)
  have t1: "Contains ''net/http: timeout awaiting response headers'' ''timeout''"
    by (simp add: Contains_def sublist_code(3))
  have c2: "contacted (RoundTrip tp_example 5 ?down)"
    by (simp add: RoundTrip_def forward_def tp_example_def get_example_def Let_def)
  have e2: "Transport_rt tp_example ?down = Inl ''dial tcp 10.0.0.5:80: connect: connection refused''"
    by (simp add: tp_example_def get_example_def)
  have t2: "\<not> Contains ''dial tcp 10.0.0.5:80: connect: connection refused'' ''timeout''"
    by (simp add: Contains_def sublist_code(3))
  from RoundTrip_transport_error [OF c1 e1] RoundTrip_transport_error [OF c2 e2] t1 t2
  show ?thesis
    by (simp add: tp_example_def get_example_def)
qed

text \<open>
  Claim C7. With an auth-cookie validator configured: a request whose method is not
  \<open>OPTIONS\<close> and whose auth cookie is absent or rejected by the validator gets the response
  403 with body \<open>Forbidden\<close>, the wrapped transport is not called, and the response is the
  same whatever the wrapped transport is. An \<open>OPTIONS\<close> request, and a request whose auth
  cookie the validator accepts, is passed to the wrapped transport: what \<open>RoundTrip\<close> returns
  is the wrapped transport's answer to that request (its response; its error, or the 504
  response made from an error that contains \<open>timeout\<close>).
\<close>

theorem RoundTrip_cookie_gate:
  assumes "AuthCookieValidateFunc t = Some validate"
  shows "(Method req \<noteq> ''OPTIONS'' \<and>
          (case Cookie req ''mirage-ecs-auth'' of Inl e \<Rightarrow> True | Inr ck \<Rightarrow> validate ck \<noteq> None)
          \<longrightarrow> \<not> contacted (RoundTrip t now req) \<and>
              (\<forall>rt. returned (RoundTrip (t\<lparr>Transport_rt := rt\<rparr>) now req) =
                 Inr \<lparr>StatusCode = 403, Body = ''Forbidden''\<rparr>)) \<and>
         (Method req = ''OPTIONS'' \<or>
          (\<exists>ck. Cookie req ''mirage-ecs-auth'' = Inr ck \<and> validate ck = None)
          \<longrightarrow> contacted (RoundTrip t now req) \<and>
              returned (RoundTrip t now req) =
                (case Transport_rt t req of
                   Inr resp \<Rightarrow> Inr resp
                 | Inl err \<Rightarrow>
                     if Contains err ''timeout''
                     then Inr (newTimeoutResponse (Subdomain t) (URL req) err)
                     else Inl err))"
  using assms
  by (auto simp: RoundTrip_def Let_def AuthCookieName_def MethodOptions_def
        newForbiddenResponse_def StatusForbidden_def forward_def split: sum.splits option.splits)

theorem RoundTrip_cookie_gate_witness:
  "(\<forall>rt. returned (RoundTrip (tp_auth_example\<lparr>Transport_rt := rt\<rparr>) 5
       (get_example ''http://10.0.0.5:80/'' [])) = Inr \<lparr>StatusCode = 403, Body = ''Forbidden''\<rparr>) \<and>
   \<not> contacted (RoundTrip tp_auth_example 5 (get_example ''http://10.0.0.5:80/'' [])) \<and>
   returned (RoundTrip tp_auth_example 5
       (get_example ''http://10.0.0.5:80/'' [auth_cookie_example ''bad''])) =
     Inr \<lparr>StatusCode = 403, Body = ''Forbidden''\<rparr> \<and>
   returned (RoundTrip tp_auth_example 5
       (get_example ''http://10.0.0.5:80/'' [auth_cookie_example ''ok''])) =
     Inr \<lparr>StatusCode = 200, Body = ''OK''\<rparr> \<and>
   returned (RoundTrip tp_auth_example 5
       \<lparr>Method = ''OPTIONS'', URL = ''http://10.0.0.5:80/down'', Cookies = []\<rparr>) =
     Inl ''dial tcp 10.0.0.5:80: connect: connection refused''"
proof -
  let ?none = "get_example ''http://10.0.0.5:80/'' []"
  let ?bad = "get_example ''http://10.0.0.5:80/'' [auth_cookie_example ''bad'']"
  let ?ok = "get_example ''http://10.0.0.5:80/'' [auth_cookie_example ''ok'']"
  let ?opt = "\<lparr>Method = ''OPTIONS'', URL = ''http://10.0.0.5:80/down'', Cookies = []\<rparr>"
  have v: "AuthCookieValidateFunc tp_auth_example = Some validate_example"
    by (simp add: tp_auth_example_def)
  have rt_ok: "Transport_rt tp_auth_example ?ok = Inr \<lparr>StatusCode = 200, Body = ''OK''\<rparr>"
    by (simp add: tp_auth_example_def tp_example_def get_example_def)
  have rt_opt: "Transport_rt tp_auth_example ?opt =
      Inl ''dial tcp 10.0.0.5:80: connect: connection refused''"
    by (simp add: tp_auth_example_def tp_example_def)
  have no_timeout: "\<not> Contains ''dial tcp 10.0.0.5:80: connect: connection refused'' ''timeout''"
    by (simp add: Contains_def sublist_code(3))
  have a: "\<not> contacted (RoundTrip tp_auth_example 5 ?none) \<and>
      (\<forall>rt. returned (RoundTrip (tp_auth_example\<lparr>Transport_rt := rt\<rparr>) 5 ?none) =
         Inr \<lparr>StatusCode = 403, Body = ''Forbidden''\<rparr>)"
    using RoundTrip_cookie_gate [OF v, of ?none 5]
    by (simp add: get_example_def Cookie_def)
  have b: "returned (RoundTrip tp_auth_example 5 ?bad) = Inr \<lparr>StatusCode = 403, Body = ''Forbidden''\<rparr>"
  proof -
    from RoundTrip_cookie_gate [OF v, of ?bad 5]
    have "\<forall>rt. returned (RoundTrip (tp_auth_example\<lparr>Transport_rt := rt\<rparr>) 5 ?bad) =
         Inr \<lparr>StatusCode = 403, Body = ''Forbidden''\<rparr>"
      by (simp add: get_example_def auth_cookie_example_def Cookie_def validate_example_def)
    from this [rule_format, of "Transport_rt tp_auth_example"] show ?thesis by simp
  qed
  have c: "returned (RoundTrip tp_auth_example 5 ?ok) = Inr \<lparr>StatusCode = 200, Body = ''OK''\<rparr>"
    using RoundTrip_cookie_gate [OF v, of ?ok 5] rt_ok
    by (simp add: get_example_def auth_cookie_example_def Cookie_def validate_example_def)
  have d: "returned (RoundTrip tp_auth_example 5 ?opt) =
      Inl ''dial tcp 10.0.0.5:80: connect: connection refused''"
    using RoundTrip_cookie_gate [OF v, of ?opt 5] rt_opt no_timeout by simp
  from a b c d show ?thesis by simp
qed

subsection \<open>The purge decision\<close>

lemma excludedByTag_iff:
  "excludedByTag m ts \<longleftrightarrow> (\<exists>t\<in>set ts. m (ToString (Key t)) = Some (ToString (Value t)))"
  by (induction ts) (auto simp: Let_def split: option.splits)

lemma sint_uminus_int64:
  "sint (- (d :: int64)) = (if sint d = - (2 ^ 63) then - (2 ^ 63) else - sint d)"
proof -
  have r: "- (2 ^ 63) \<le> sint d" "sint d < 2 ^ 63"
    using sint_ge [of d] sint_lt [of d] by simp_all
  have n: "sint (- d) = signed_take_bit 63 (- sint d)"
    by (simp add: sint_word_ariths)
  show ?thesis
  proof (cases "sint d = - (2 ^ 63)")
    case True
    then show ?thesis unfolding n by simp
  next
    case False
    with r have "- (2 ^ 63) \<le> - sint d" "- sint d < 2 ^ 63" by simp_all
    then have "signed_take_bit 63 (- sint d) = - sint d"
      by (rule signed_take_bit_int_eq_self)
    with False show ?thesis unfolding n by simp
  qed
qed

text \<open>
  Claim C4, as stated (with the creation time strictly older than \<open>now - duration\<close>), fails at
  the boundary: a running task created exactly \<open>duration\<close> ago, with no exclusion rule
  matching, is purged although its creation time is not older than \<open>now - duration\<close>.
\<close>

theorem ShouldBePurged_boundary_counterexample:
  "ShouldBePurged (info_example\<lparr>Created := 700 * second\<rparr>) params_example (1000 * second) \<and>
   \<not> Created (info_example\<lparr>Created := 700 * second\<rparr>) <
       1000 * second - sint (Duration params_example)"
  by (simp add: ShouldBePurged_def info_example_def params_example_def statusRunning_def second_def
      Second_def ToString_def Time_Add_def Time_After_def)

text \<open>
  Claim C4, amended: \<open>ShouldBePurged\<close> is true if and only if the task is \<open>RUNNING\<close>, its subdomain
  is not in the excludes, no tag equals an entry of the exclude tags, the exclude regexp (when
  present) does not match the subdomain, and the creation time is not after \<open>now - duration\<close>
  (it is older than that instant or equal to it). The duration is a signed 64-bit number of
  nanoseconds; for the least one, \<open>-2^63\<close>, whose negation overflows, the instant is
  \<open>now + duration\<close>, that is \<open>now - 2^63\<close>.
\<close>

theorem ShouldBePurged_iff:
  "ShouldBePurged info p now \<longleftrightarrow>
     LastStatus info = ''RUNNING'' \<and>
     SubDomain info \<notin> excludesMap p \<and>
     \<not> (\<exists>t\<in>set (Tags info). excludeTagsMap p (ToString (Key t)) = Some (ToString (Value t))) \<and>
     \<not> (\<exists>re. ExcludeRegexp p = Some re \<and> re (SubDomain info)) \<and>
     Created info \<le> (if sint (Duration p) = - (2 ^ 63) then now + sint (Duration p)
                      else now - sint (Duration p))"
  by (auto simp: ShouldBePurged_def excludedByTag_iff statusRunning_def Let_def Time_Add_def
      Time_After_def sint_uminus_int64 split: option.splits)

text \<open>
  The last example is the duration that \<open>Validate\<close> computes, as
  \<open>time.Duration(di) * time.Second\<close>, from a request for 18014398509481984 seconds: the product
  wraps to \<open>-2^63\<close>, and a task created seven minutes ago is not purged.
\<close>

theorem ShouldBePurged_iff_witness:
  "ShouldBePurged (info_example\<lparr>Tags := [\<lparr>Key = Some ''Subdomain'', Value = Some ''test''\<rparr>]\<rparr>)
     (params_example\<lparr>excludesMap := {''test2''}, excludeTagsMap := [''DontPurge'' \<mapsto> ''true''],
        ExcludeRegexp := Some (\<lambda>s. s = ''xxx'')\<rparr>) (1000 * second) \<and>
   \<not> ShouldBePurged info_example
     (params_example\<lparr>excludeTagsMap := [''DontPurge'' \<mapsto> ''true'']\<rparr>) (1000 * second) \<and>
   \<not> ShouldBePurged info_example (params_example\<lparr>excludesMap := {''test''}\<rparr>) (1000 * second) \<and>
   \<not> ShouldBePurged info_example (params_example\<lparr>Duration := 600 * Second\<rparr>) (1000 * second) \<and>
   \<not> ShouldBePurged info_example
     (params_example\<lparr>Duration := word_of_int 18014398509481984 * Second\<rparr>) (1000 * second)"
  using ShouldBePurged_iff [of "info_example\<lparr>Tags := [\<lparr>Key = Some ''Subdomain'', Value = Some ''test''\<rparr>]\<rparr>"
      "params_example\<lparr>excludesMap := {''test2''}, excludeTagsMap := [''DontPurge'' \<mapsto> ''true''],
        ExcludeRegexp := Some (\<lambda>s. s = ''xxx'')\<rparr>" "1000 * second"]
    ShouldBePurged_iff [of info_example "params_example\<lparr>excludeTagsMap := [''DontPurge'' \<mapsto> ''true'']\<rparr>" "1000 * second"]
    ShouldBePurged_iff [of info_example "params_example\<lparr>excludesMap := {''test''}\<rparr>" "1000 * second"]
    ShouldBePurged_iff [of info_example "params_example\<lparr>Duration := 600 * Second\<rparr>" "1000 * second"]
    ShouldBePurged_iff [of info_example
      "params_example\<lparr>Duration := word_of_int 18014398509481984 * Second\<rparr>" "1000 * second"]
  by (simp add: info_example_def params_example_def second_def Second_def ToString_def)

subsection \<open>The tag-value codec\<close>

lemma and_63: "(x::nat) AND 63 = x mod 64"
proof -
  have "(63::nat) = mask 6" by (simp add: mask_eq_exp_minus_1)
  then have "x AND 63 = take_bit 6 x" by (simp only: take_bit_eq_mask)
  then show ?thesis by (simp add: take_bit_eq_mod)
qed

lemma push_or: "(b::nat) < 2 ^ n \<Longrightarrow> push_bit n a OR b = a * 2 ^ n + b"
proof -
  assume b: "b < 2 ^ n"
  have "push_bit n a + b = push_bit n a OR b"
  proof (rule disjunctive_add)
    fix k
    show "\<not> bit (push_bit n a) k \<or> \<not> bit b k"
    proof (cases "k < n")
      case True
      then show ?thesis by (simp add: bit_push_bit_iff)
    next
      case False
      then have "(2::nat) ^ n \<le> 2 ^ k" by (simp add: power_increasing)
      with b have "b < 2 ^ k" by linarith
      then have "\<not> bit b k" by (simp add: bit_iff_odd)
      then show ?thesis ..
    qed
  qed
  then show ?thesis by (simp add: push_bit_eq_mult)
qed

lemma bytes_val:
  "(a::nat) < 256 \<Longrightarrow> b < 256 \<Longrightarrow> c < 256 \<Longrightarrow>
   push_bit 16 a OR push_bit 8 b OR c = a * 65536 + b * 256 + c"
proof -
  assume a: "a < 256" and b: "b < 256" and c: "c < 256"
  have 1: "push_bit 8 b OR c = b * 256 + c" using push_or [of c 8 b] c by simp
  have "b * 256 + c < 2 ^ 16" using b c by simp
  from push_or [OF this, of a] 1 show ?thesis by (simp add: or.assoc)
qed

lemma sextets_val:
  assumes "s1 < 64" "s2 < 64" "(s3::nat) < 64"
  shows "push_bit 18 s0 OR push_bit 12 s1 OR push_bit 6 s2 OR s3 =
         s0 * 262144 + s1 * 4096 + s2 * 64 + s3"
proof -
  have 1: "push_bit 6 s2 OR s3 = s2 * 64 + s3" using push_or [of s3 6 s2] assms by simp
  have "s2 * 64 + s3 < 2 ^ 12" using assms by simp
  from push_or [OF this, of s1] have 2: "push_bit 12 s1 OR (s2 * 64 + s3) = s1 * 4096 + s2 * 64 + s3"
    by simp
  have "s1 * 4096 + s2 * 64 + s3 < 2 ^ 18" using assms by simp
  from push_or [OF this, of s0] 1 2 show ?thesis by (simp add: or.assoc)
qed

lemma reassemble:
  assumes "(v::nat) < 16777216"
  shows "push_bit 18 (drop_bit 18 v AND 63) OR push_bit 12 (drop_bit 12 v AND 63) OR
         push_bit 6 (drop_bit 6 v AND 63) OR (v AND 63) = v"
proof -
  define q1 where "q1 = v div 64"
  define q2 where "q2 = q1 div 64"
  define q3 where "q3 = q2 div 64"
  have d2: "v div 4096 = q2" unfolding q2_def q1_def by (simp add: div_mult2_eq)
  have d3: "v div 262144 = q3" unfolding q3_def q2_def q1_def by (simp add: div_mult2_eq)
  have "q3 < 64" using assms unfolding d3 [symmetric] by simp
  then have m3: "q3 mod 64 = q3" by simp
  have e1: "v = q1 * 64 + v mod 64" unfolding q1_def by simp
  have e2: "q1 = q2 * 64 + q1 mod 64" unfolding q2_def by simp
  have e3: "q2 = q3 * 64 + q2 mod 64" unfolding q3_def by simp
  have "q3 * 262144 + (q2 mod 64) * 4096 + (q1 mod 64) * 64 + v mod 64 = v"
    using e1 e2 e3 by linarith
  then show ?thesis
    by (simp add: and_63 drop_bit_eq_div sextets_val d2 d3 m3 q1_def [symmetric])
qed

lemma decodeMapOf_nth:
  "distinct es \<Longrightarrow> i < length es \<Longrightarrow> decodeMapOf es k (es ! i) = k + i"
proof (induction es arbitrary: i k)
  case Nil
  then show ?case by simp
next
  case (Cons e es)
  show ?case
  proof (cases i)
    case 0
    then show ?thesis by simp
  next
    case (Suc i')
    with Cons.prems have "es ! i' \<in> set es" by simp
    with Cons.prems have "es ! i' \<noteq> e" by auto
    with Cons.prems Suc Cons.IH [of i' "k + 1"] show ?thesis by simp
  qed
qed

lemma distinct_encodeURL: "distinct encodeURL"
  by (simp add: encodeURL_def)

lemma length_encodeURL: "length encodeURL = 64"
  by (simp add: encodeURL_def)

lemma decodeMap_encode: "i < 64 \<Longrightarrow> decodeMap (encode i) = i"
  using decodeMapOf_nth [OF distinct_encodeURL, of i 0]
  by (simp add: decodeMap_def encode_def length_encodeURL)

lemma decodeMap_padChar: "decodeMap padChar = 255"
  by (simp add: decodeMap_def padChar_def encodeURL_def)

lemma padChar_no_newline: "padChar \<noteq> CHR 0x0A" "padChar \<noteq> CHR 0x0D"
  by (simp_all add: padChar_def)

lemma decodeQuantumFrom_4: "decodeQuantumFrom 4 dbuf src si = (convert dbuf 4, src, si, None)"
  by (cases src) simp_all

lemma decodeQuantum_full:
  assumes "i0 < 64" "i1 < 64" "i2 < 64" "i3 < 64"
  shows "decodeQuantum (encode i0 # encode i1 # encode i2 # encode i3 # src) si =
         (convert [i0, i1, i2, i3] 4, src, si + 4, None)"
proof -
  have "decodeQuantumFrom 0 [0, 0, 0, 0] (encode i0 # encode i1 # encode i2 # encode i3 # src) si =
        decodeQuantumFrom (Suc 0) [i0, 0, 0, 0] (encode i1 # encode i2 # encode i3 # src) (Suc si)"
    using assms by (simp add: decodeMap_encode)
  also have "\<dots> = decodeQuantumFrom 2 [i0, i1, 0, 0] (encode i2 # encode i3 # src) (si + 2)"
    using assms by (simp add: decodeMap_encode numeral_2_eq_2)
  also have "\<dots> = decodeQuantumFrom 3 [i0, i1, i2, 0] (encode i3 # src) (si + 3)"
    using assms by (simp add: decodeMap_encode numeral_3_eq_3 numeral_2_eq_2)
  also have "\<dots> = decodeQuantumFrom 4 [i0, i1, i2, i3] src (si + 4)"
    using assms by (simp add: decodeMap_encode numeral_3_eq_3 eval_nat_numeral)
  finally show ?thesis by (simp add: decodeQuantum_def decodeQuantumFrom_4)
qed

lemma decodeQuantum_pad1:
  assumes "i0 < 64" "i1 < 64" "i2 < 64"
  shows "decodeQuantum [encode i0, encode i1, encode i2, padChar] si =
         (convert [i0, i1, i2, 0] 3, [], si + 4, None)"
proof -
  have "decodeQuantumFrom 0 [0, 0, 0, 0] [encode i0, encode i1, encode i2, padChar] si =
        decodeQuantumFrom (Suc 0) [i0, 0, 0, 0] [encode i1, encode i2, padChar] (Suc si)"
    using assms by (simp add: decodeMap_encode)
  also have "\<dots> = decodeQuantumFrom 2 [i0, i1, 0, 0] [encode i2, padChar] (si + 2)"
    using assms by (simp add: decodeMap_encode numeral_2_eq_2)
  also have "\<dots> = decodeQuantumFrom 3 [i0, i1, i2, 0] [padChar] (si + 3)"
    using assms by (simp add: decodeMap_encode numeral_3_eq_3 numeral_2_eq_2)
  also have "\<dots> = (convert [i0, i1, i2, 0] 3, [], si + 4, None)"
    by (simp add: decodeMap_padChar padChar_no_newline)
  finally show ?thesis by (simp add: decodeQuantum_def)
qed

lemma decodeQuantum_pad2:
  assumes "i0 < 64" "i1 < 64"
  shows "decodeQuantum [encode i0, encode i1, padChar, padChar] si =
         (convert [i0, i1, 0, 0] 2, [], si + 4, None)"
proof -
  have "decodeQuantumFrom 0 [0, 0, 0, 0] [encode i0, encode i1, padChar, padChar] si =
        decodeQuantumFrom (Suc 0) [i0, 0, 0, 0] [encode i1, padChar, padChar] (Suc si)"
    using assms by (simp add: decodeMap_encode)
  also have "\<dots> = decodeQuantumFrom 2 [i0, i1, 0, 0] [padChar, padChar] (si + 2)"
    using assms by (simp add: decodeMap_encode numeral_2_eq_2)
  also have "\<dots> = (convert [i0, i1, 0, 0] 2, [], si + 4, None)"
    by (simp add: decodeMap_padChar padChar_no_newline)
  finally show ?thesis by (simp add: decodeQuantum_def)
qed

lemma of_char_less_256: "(of_char c :: nat) < 256"
  by (simp add: of_char_def)

lemma and_63_less: "(x::nat) AND 63 < 64"
  by (simp add: and_63)

lemma bytes_split:
  assumes "(A::nat) < 256" "B < 256" "C < 256"
  defines "v \<equiv> A * 65536 + B * 256 + C"
  shows "v < 16777216" "v div 65536 = A" "v div 256 mod 256 = B" "v mod 256 = C"
proof -
  show "v < 16777216" using assms by simp
  have "B * 256 + C < 65536" using assms by simp
  then show "v div 65536 = A" unfolding v_def by (simp add: add.assoc)
  have v2: "v = C + (A * 256 + B) * 256" unfolding v_def by simp
  have "v div 256 = A * 256 + B" unfolding v2 using assms(3) by simp
  then show "v div 256 mod 256 = B" using assms(2) by simp
  show "v mod 256 = C" unfolding v2 using assms(3) by (simp only: mod_mult_self1 mod_less)
qed

lemma convert_val:
  assumes "push_bit 18 d0 OR push_bit 12 d1 OR push_bit 6 d2 OR d3 = v"
  shows "convert [d0, d1, d2, d3] n =
         (if n = 4 then [char_of (v div 65536), char_of (v div 256), char_of v]
          else if n = 3 then [char_of (v div 65536), char_of (v div 256)]
          else if n = 2 then [char_of (v div 65536)] else [])"
  using assms by (simp add: convert_def drop_bit_eq_div Let_def)

lemma convert_bytes:
  assumes "(A::nat) < 256" "B < 256" "C < 256"
  defines "v \<equiv> A * 65536 + B * 256 + C"
  shows "convert [drop_bit 18 v AND 63, drop_bit 12 v AND 63, drop_bit 6 v AND 63, v AND 63] n =
         (if n = 4 then [char_of A, char_of B, char_of C] else if n = 3 then [char_of A, char_of B]
          else if n = 2 then [char_of A] else [])"
proof -
  note s = bytes_split [OF assms(1-3), folded v_def]
  have b1: "char_of (v div 256) = (char_of B :: char)"
    using s(3) char_of_mod_256 [of "v div 256"] by simp
  have b2: "char_of v = (char_of C :: char)"
    using s(4) char_of_mod_256 [of v] by simp
  show ?thesis
    unfolding convert_val [OF reassemble [OF s(1)]] s(2) b1 b2 ..
qed

lemma Encode_3:
  "Encode (a # b # c # src) =
     (let v = of_char a * 65536 + of_char b * 256 + of_char c :: nat
      in encode (drop_bit 18 v AND 63) # encode (drop_bit 12 v AND 63) #
         encode (drop_bit 6 v AND 63) # encode (v AND 63) # Encode src)"
  by (simp add: Let_def bytes_val [OF of_char_less_256 of_char_less_256 of_char_less_256])

lemma Encode_2:
  "Encode [a, b] =
     (let v = of_char a * 65536 + of_char b * 256 + 0 :: nat
      in [encode (drop_bit 18 v AND 63), encode (drop_bit 12 v AND 63),
          encode (drop_bit 6 v AND 63), padChar])"
  using bytes_val [OF of_char_less_256 of_char_less_256, of 0 a b]
  by (simp add: Let_def)

lemma Encode_1:
  "Encode [a] =
     (let v = of_char a * 65536 + 0 * 256 + 0 :: nat
      in [encode (drop_bit 18 v AND 63), encode (drop_bit 12 v AND 63), padChar, padChar])"
  using bytes_val [of "of_char a" 0 0] of_char_less_256 [of a]
  by (simp add: Let_def)

lemma Decode_step:
  "src \<noteq> [] \<Longrightarrow> decodeQuantum src si = (bs, r, si', None) \<Longrightarrow>
   Decode dst src si = Decode (dst @ bs) r si'"
  by (subst Decode.simps) simp

lemma Decode_Nil: "Decode dst [] si = (dst, None)"
  by (subst Decode.simps) simp

lemma Decode_Encode: "Decode dst (Encode s) si = (dst @ s, None)"
proof (induction s arbitrary: dst si rule: Encode.induct)
  case (1 a b c src)
  define v where "v = (of_char a * 65536 + of_char b * 256 + of_char c :: nat)"
  have q: "decodeQuantum (Encode (a # b # c # src)) si = ([a, b, c], Encode src, si + 4, None)"
    unfolding Encode_3 Let_def v_def [symmetric]
    using decodeQuantum_full [OF and_63_less and_63_less and_63_less and_63_less,
        of "drop_bit 18 v" "drop_bit 12 v" "drop_bit 6 v" v "Encode src" si]
      convert_bytes [OF of_char_less_256 of_char_less_256 of_char_less_256, of a b c 4]
    by (simp add: v_def)
  have "Encode (a # b # c # src) \<noteq> []" by (simp add: Let_def)
  from Decode_step [OF this q] "1.IH" [of "dst @ [a, b, c]" "si + 4"]
  show ?case by simp
next
  case (2 a b)
  define v where "v = (of_char a * 65536 + of_char b * 256 + 0 :: nat)"
  have z: "v AND 63 = 0" unfolding and_63 v_def by simp
  have q: "decodeQuantum (Encode [a, b]) si = ([a, b], [], si + 4, None)"
    unfolding Encode_2 Let_def v_def [symmetric]
    using decodeQuantum_pad1 [OF and_63_less and_63_less and_63_less,
        of "drop_bit 18 v" "drop_bit 12 v" "drop_bit 6 v" si]
      convert_bytes [OF of_char_less_256 of_char_less_256, of 0 a b 3] z
    by (simp add: v_def)
  have "Encode [a, b] \<noteq> []" by (simp add: Let_def)
  from Decode_step [OF this q] show ?case by (simp add: Decode_Nil)
next
  case (3 a)
  define v where "v = (of_char a * 65536 + 0 * 256 + 0 :: nat)"
  have z: "v AND 63 = 0" unfolding and_63 v_def by simp
  have "v div 64 = of_char a * 1024" unfolding v_def by simp
  then have z2: "drop_bit 6 v AND 63 = 0" unfolding and_63 drop_bit_eq_div by simp
  have q: "decodeQuantum (Encode [a]) si = ([a], [], si + 4, None)"
    unfolding Encode_1 Let_def v_def [symmetric]
    using decodeQuantum_pad2 [OF and_63_less and_63_less,
        of "drop_bit 18 v" "drop_bit 12 v" si]
      convert_bytes [of "of_char a" 0 0 2] of_char_less_256 [of a] z z2
    by (simp add: v_def)
  have "Encode [a] \<noteq> []" by (simp add: Let_def)
  from Decode_step [OF this q] show ?case by (simp add: Decode_Nil)
next
  case 4
  show ?case by (simp add: Decode_Nil)
qed

lemma decode_encode: "decodeTagValue (encodeTagValue s) = s"
  by (simp add: decodeTagValue_def encodeTagValue_def EncodeToString_def DecodeString_def
      Decode_Encode)

lemmas b64_eval = DecodeString_def Decode.simps decodeQuantum_def decodeMap_def encodeURL_def
  padChar_def convert_def numeral_2_eq_2 [symmetric] EncodeToString_def encode_def

text \<open>
  Claim C8, as stated, fails in its second half: the decoder accepts \<open>YR==\<close> (it is not
  strict about the unused bits of the last character) and decodes it to \<open>a\<close>, whose encoding
  is \<open>YQ==\<close>.
\<close>

theorem codec_roundtrip_counterexample:
  "snd (DecodeString ''YR=='') = None \<and> encodeTagValue (decodeTagValue ''YR=='') \<noteq> ''YR=='' "
proof -
  have c: "char_of (97::nat) = CHR ''a''" by code_simp
  have d: "DecodeString ''YR=='' = (''a'', None)" by (simp add: b64_eval c)
  have e: "encodeTagValue ''a'' = ''YQ==''" by (simp add: encodeTagValue_def b64_eval)
  from d e show ?thesis by (simp add: decodeTagValue_def)
qed

text \<open>
  Claim C8, amended: \<open>decodeTagValue (encodeTagValue s) = s\<close> for every string \<open>s\<close> (every byte
  sequence, so every UTF-8 string), and \<open>encodeTagValue (decodeTagValue x) = x\<close> exactly for the
  strings \<open>x\<close> that are the encoding of some string.
\<close>

theorem codec_roundtrip:
  "decodeTagValue (encodeTagValue s) = s \<and>
   (encodeTagValue (decodeTagValue x) = x \<longleftrightarrow> (\<exists>s'. x = encodeTagValue s'))"
proof
  show "decodeTagValue (encodeTagValue s) = s" by (rule decode_encode)
  show "encodeTagValue (decodeTagValue x) = x \<longleftrightarrow> (\<exists>s'. x = encodeTagValue s')"
  proof
    assume "encodeTagValue (decodeTagValue x) = x"
    then have "x = encodeTagValue (decodeTagValue x)" by simp
    then show "\<exists>s'. x = encodeTagValue s'" ..
  next
    assume "\<exists>s'. x = encodeTagValue s'"
    then obtain s' where "x = encodeTagValue s'" ..
    then show "encodeTagValue (decodeTagValue x) = x" by (simp add: decode_encode)
  qed
qed

subsection \<open>The inputs that the decoder accepts\<close>

lemma decodeMapOf_255:
  "k + length es \<le> 255 \<Longrightarrow> decodeMapOf es k c = 255 \<longleftrightarrow> c \<notin> set es"
  by (induction es arbitrary: k) auto

lemma decodeMap_255: "decodeMap c \<noteq> 255 \<longleftrightarrow> inAlphabet c"
  using decodeMapOf_255 [of 0 encodeURL c]
  by (simp add: decodeMap_def inAlphabet_def length_encodeURL)

lemma inAlphabet_special:
  "\<not> inAlphabet padChar" "\<not> inAlphabet (CHR 0x0A)" "\<not> inAlphabet (CHR 0x0D)"
  by (simp_all add: inAlphabet_def encodeURL_def padChar_def)

lemma skipNewlines_strip:
  "skipNewlines src si = (r, si') \<Longrightarrow>
     stripNewlines src = stripNewlines r \<and> (r = [] \<or> hd r \<noteq> CHR 0x0A \<and> hd r \<noteq> CHR 0x0D)"
  by (induction src arbitrary: si) (auto simp: stripNewlines_def split: if_splits)

lemma skipNewlines_Nil:
  "skipNewlines src si = (r, si') \<Longrightarrow> r = [] \<longleftrightarrow> stripNewlines src = []"
  by (frule skipNewlines_strip) (cases r, auto simp: stripNewlines_def)

lemma skipNewlines_Cons:
  "skipNewlines src si = (c # r, si') \<Longrightarrow> stripNewlines src = c # stripNewlines r"
  by (frule skipNewlines_strip) (auto simp: stripNewlines_def)

lemma Decode_DecodeFrom:
  "Decode dst src si = (if src = [] then (dst, None) else DecodeFrom 0 [0, 0, 0, 0] dst src si)"
  by (subst Decode.simps) (simp add: DecodeFrom_def decodeQuantum_def split: prod.splits option.splits)

lemma DecodeFrom_Nil:
  "DecodeFrom j dbuf dst [] si =
     (if 4 \<le> j then (dst @ convert dbuf 4, None) else if j = 0 then (dst, None)
      else (dst, Some (CorruptInputError (si - j))))"
  by (simp add: DecodeFrom_def Decode_Nil)

lemma DecodeFrom_4:
  "DecodeFrom 4 dbuf dst src si = Decode (dst @ convert dbuf 4) src si"
  by (simp add: DecodeFrom_def decodeQuantumFrom_4)

lemma DecodeFrom_alphabet:
  "j < 4 \<Longrightarrow> inAlphabet c \<Longrightarrow>
   DecodeFrom j dbuf dst (c # src) si = DecodeFrom (Suc j) (dbuf[j := decodeMap c]) dst src (Suc si)"
  using decodeMap_255 [of c] by (simp add: DecodeFrom_def Let_def)

lemma DecodeFrom_newline:
  "j < 4 \<Longrightarrow> c = CHR 0x0A \<or> c = CHR 0x0D \<Longrightarrow>
   DecodeFrom j dbuf dst (c # src) si = DecodeFrom j dbuf dst src (Suc si)"
  using decodeMap_255 [of c] inAlphabet_special by (auto simp: DecodeFrom_def Let_def)

lemma DecodeFrom_other:
  "j < 4 \<Longrightarrow> \<not> inAlphabet c \<Longrightarrow> c \<noteq> CHR 0x0A \<Longrightarrow> c \<noteq> CHR 0x0D \<Longrightarrow> c \<noteq> padChar \<Longrightarrow>
   snd (DecodeFrom j dbuf dst (c # src) si) \<noteq> None"
  using decodeMap_255 [of c] by (simp add: DecodeFrom_def Let_def)

lemma DecodeFrom_pad_early:
  "j < 2 \<Longrightarrow> snd (DecodeFrom j dbuf dst (padChar # src) si) \<noteq> None"
  using decodeMap_255 [of padChar] inAlphabet_special padChar_no_newline
  by (auto simp: DecodeFrom_def Let_def)

lemma DecodeFrom_pad3:
  "DecodeFrom 3 dbuf dst (padChar # src) si =
     (dst @ convert dbuf 3,
      if stripNewlines src = [] then None
      else Some (CorruptInputError (snd (skipNewlines src (Suc si)))))"
proof -
  obtain src3 si3 where s: "skipNewlines src (Suc si) = (src3, si3)"
    by (cases "skipNewlines src (Suc si)") auto
  from skipNewlines_Nil [OF s] s show ?thesis
    using decodeMap_255 [of padChar] inAlphabet_special padChar_no_newline
    by (auto simp: DecodeFrom_def Let_def Decode_Nil)
qed

lemma DecodeFrom_pad2:
  "snd (DecodeFrom 2 dbuf dst (padChar # src) si) = None \<longleftrightarrow> stripNewlines src = [padChar]"
  "DecodeFrom 2 dbuf dst (padChar # src) si = (out, None) \<Longrightarrow> out = dst @ convert dbuf 2 \<and> src \<noteq> []"
proof -
  note pad = decodeMap_255 [of padChar] inAlphabet_special padChar_no_newline
  obtain r si2 where s: "skipNewlines src (Suc si) = (r, si2)"
    by (cases "skipNewlines src (Suc si)") auto
  show "snd (DecodeFrom 2 dbuf dst (padChar # src) si) = None \<longleftrightarrow> stripNewlines src = [padChar]"
  proof (cases r)
    case Nil
    with s skipNewlines_Nil [OF s] pad show ?thesis
      by (auto simp: DecodeFrom_def Let_def)
  next
    case (Cons c2 src2)
    note c = skipNewlines_Cons [OF s [unfolded Cons]]
    obtain src3 si3 where s3: "skipNewlines src2 (Suc si2) = (src3, si3)"
      by (cases "skipNewlines src2 (Suc si2)") auto
    from skipNewlines_Nil [OF s3] s s3 Cons c pad show ?thesis
      by (auto simp: DecodeFrom_def Let_def Decode_Nil)
  qed
  show "out = dst @ convert dbuf 2 \<and> src \<noteq> []"
    if "DecodeFrom 2 dbuf dst (padChar # src) si = (out, None)"
  proof (cases r)
    case Nil
    with s that pad show ?thesis by (auto simp: DecodeFrom_def Let_def)
  next
    case (Cons c2 src2)
    obtain src3 si3 where s3: "skipNewlines src2 (Suc si2) = (src3, si3)"
      by (cases "skipNewlines src2 (Suc si2)") auto
    from s s3 Cons that pad show ?thesis
      by (cases src) (auto simp: DecodeFrom_def Let_def Decode_Nil split: if_splits)
  qed
qed

lemma stripNewlines_simps:
  "stripNewlines [] = []"
  "c = CHR 0x0A \<or> c = CHR 0x0D \<Longrightarrow> stripNewlines (c # s) = stripNewlines s"
  "c \<noteq> CHR 0x0A \<Longrightarrow> c \<noteq> CHR 0x0D \<Longrightarrow> stripNewlines (c # s) = c # stripNewlines s"
  by (auto simp: stripNewlines_def)

lemma quantumFrom_4: "quantumFrom 4 s = quantumFrom 0 s"
  by (cases s) simp_all

lemma DecodeFrom_accepts:
  "j \<le> 4 \<Longrightarrow> snd (DecodeFrom j dbuf dst src si) = None \<longleftrightarrow> quantumFrom j (stripNewlines src)"
proof (induction src arbitrary: j dbuf dst si)
  case Nil
  then show ?case by (auto simp: DecodeFrom_Nil stripNewlines_simps)
next
  case (Cons c src)
  have inner: "snd (DecodeFrom j dbuf dst (c # src) si) = None \<longleftrightarrow>
      quantumFrom j (stripNewlines (c # src))" if j: "j < 4" for j dbuf dst si
  proof -
    consider (alphabet) "inAlphabet c" | (newline) "c = CHR 0x0A \<or> c = CHR 0x0D"
      | (pad) "c = padChar" "j < 2" | (pad2) "c = padChar" "j = 2" | (pad3) "c = padChar" "j = 3"
      | (other) "\<not> inAlphabet c" "c \<noteq> CHR 0x0A" "c \<noteq> CHR 0x0D" "c \<noteq> padChar"
      using j by fastforce
    then show ?thesis
    proof cases
      case alphabet
      then have n: "c \<noteq> CHR 0x0A" "c \<noteq> CHR 0x0D" using inAlphabet_special by auto
      from j have "Suc j \<le> 4" by simp
      from Cons.IH [OF this] alphabet j show ?thesis
        by (simp add: DecodeFrom_alphabet stripNewlines_simps(3) [OF n])
    next
      case newline
      from j have "j \<le> 4" by simp
      from Cons.IH [OF this] newline j show ?thesis
        by (simp add: DecodeFrom_newline stripNewlines_simps(2))
    next
      case pad
      with DecodeFrom_pad_early [of j dbuf dst src si] inAlphabet_special padChar_no_newline
      show ?thesis by (simp add: stripNewlines_simps(3))
    next
      case pad2
      with DecodeFrom_pad2(1) [of dbuf dst src si] inAlphabet_special padChar_no_newline
      show ?thesis by (simp add: stripNewlines_simps(3))
    next
      case pad3
      with DecodeFrom_pad3 [of dbuf dst src si] inAlphabet_special padChar_no_newline
      show ?thesis by (simp add: stripNewlines_simps(3))
    next
      case other
      with DecodeFrom_other [OF j other, of dbuf dst src si] j show ?thesis
        by (simp add: stripNewlines_simps(3))
    qed
  qed
  show ?case
  proof (cases "j = 4")
    case True
    from inner [of 0 "[0, 0, 0, 0]" "dst @ convert dbuf 4" si] True show ?thesis
      by (simp add: DecodeFrom_4 Decode_DecodeFrom quantumFrom_4)
  next
    case False
    with Cons.prems have "j < 4" by simp
    then show ?thesis by (rule inner)
  qed
qed

lemma DecodeString_accepts:
  "snd (DecodeString x) = None \<longleftrightarrow> quantumFrom 0 (stripNewlines x)"
  using DecodeFrom_accepts [of 0 "[0, 0, 0, 0]" "[]" x 0]
  by (simp add: DecodeString_def Decode_DecodeFrom stripNewlines_simps)

lemma wellFormed_quantumFrom: "wellFormed s \<longleftrightarrow> quantumFrom 0 s"
proof (induction s rule: wellFormed.induct)
  case 1
  show ?case by simp
next
  case (2 a b c d rest)
  then show ?case
    using inAlphabet_special(1) by (cases rest) (auto simp: numeral_eq_Suc)
qed (simp_all add: numeral_eq_Suc)

lemma length_convert: "1 < n \<Longrightarrow> n \<le> 4 \<Longrightarrow> length (convert dbuf n) = n - 1"
  by (auto simp: convert_def Let_def)

lemma DecodeFrom_length:
  "j \<le> 4 \<Longrightarrow> DecodeFrom j dbuf dst src si = (out, None) \<Longrightarrow>
   length out + (if j = 0 \<and> src = [] then 0 else 1) \<le> length dst + length src + j"
proof (induction src arbitrary: j dbuf dst si)
  case Nil
  then show ?case by (auto simp: DecodeFrom_Nil length_convert split: if_splits)
next
  case (Cons c src)
  have inner: "length out + 1 \<le> length dst + length (c # src) + j"
    if j: "j < 4" and d: "DecodeFrom j dbuf dst (c # src) si = (out, None)" for j dbuf dst si
  proof -
    consider (alphabet) "inAlphabet c" | (newline) "c = CHR 0x0A \<or> c = CHR 0x0D"
      | (pad) "c = padChar" "j < 2" | (pad2) "c = padChar" "j = 2" | (pad3) "c = padChar" "j = 3"
      | (other) "\<not> inAlphabet c" "c \<noteq> CHR 0x0A" "c \<noteq> CHR 0x0D" "c \<noteq> padChar"
      using j by fastforce
    then show ?thesis
    proof cases
      case alphabet
      from j have "Suc j \<le> 4" by simp
      from Cons.IH [OF this, of "dbuf[j := decodeMap c]" dst "Suc si"] d alphabet j show ?thesis
        by (simp add: DecodeFrom_alphabet)
    next
      case newline
      from j have "j \<le> 4" by simp
      from Cons.IH [OF this, of dbuf dst "Suc si"] d newline j show ?thesis
        by (simp add: DecodeFrom_newline split: if_splits)
    next
      case pad
      with DecodeFrom_pad_early [of j dbuf dst src si] d show ?thesis by simp
    next
      case pad2
      with DecodeFrom_pad2(2) [of dbuf dst src si out] d show ?thesis
        by (cases src) (simp_all add: length_convert)
    next
      case pad3
      with DecodeFrom_pad3 [of dbuf dst src si] d show ?thesis
        by (auto simp: length_convert split: if_splits)
    next
      case other
      with DecodeFrom_other [OF j other, of dbuf dst src si] d show ?thesis by simp
    qed
  qed
  show ?case
  proof (cases "j = 4")
    case True
    with Cons.prems have "DecodeFrom 0 [0, 0, 0, 0] (dst @ convert dbuf 4) (c # src) si = (out, None)"
      by (simp add: DecodeFrom_4 Decode_DecodeFrom)
    from inner [OF _ this] True show ?thesis by (simp add: length_convert)
  next
    case False
    with Cons.prems have "j < 4" by simp
    from inner [OF this Cons.prems(2)] show ?thesis by simp
  qed
qed

lemma DecodeString_shorter:
  assumes "x \<noteq> []" and "DecodeString x = (d, None)"
  shows "length d < length x"
  using DecodeFrom_length [of 0 "[0, 0, 0, 0]" "[]" x 0 d] assms
  by (simp add: DecodeString_def Decode_DecodeFrom)

text \<open>
  Claim C10, as stated, fails when ``not valid base64url'' is read as RFC 4648 has it: the
  line feed is not in the alphabet, the decoder skips it, and \<open>YQ==\<close> followed by a line feed
  is decoded to \<open>a\<close>, not returned.
\<close>

theorem decodeTagValue_newline_counterexample:
  "\<not> inAlphabet (CHR 0x0A) \<and> CHR 0x0A \<noteq> padChar \<and>
   decodeTagValue [CHR ''Y'', CHR ''Q'', CHR ''='', CHR ''='', CHR 0x0A] = ''a''"
proof -
  have c: "char_of (97::nat) = CHR ''a''" by code_simp
  have "DecodeString [CHR ''Y'', CHR ''Q'', CHR ''='', CHR ''='', CHR 0x0A] = (''a'', None)"
    by (simp add: b64_eval c)
  then show ?thesis by (simp add: decodeTagValue_def inAlphabet_special padChar_def)
qed

text \<open>
  Claim C10, amended. \<open>decodeTagValue\<close> is a total function to strings (the decoder
  terminates on every input). The decoder reports an error for \<open>x\<close> exactly when \<open>x\<close>, with
  its CR and LF bytes removed, is not well-formed: not a sequence of groups of four alphabet
  characters whose last group may end in one or two pad characters. \<open>decodeTagValue\<close> returns
  \<open>x\<close> itself exactly for these inputs and for the empty string; every other input is decoded
  to a shorter string.
\<close>

theorem decodeTagValue_fallback:
  "(snd (DecodeString x) \<noteq> None \<longleftrightarrow> \<not> wellFormed (stripNewlines x)) \<and>
   (decodeTagValue x = x \<longleftrightarrow> x = [] \<or> \<not> wellFormed (stripNewlines x))"
proof (cases "DecodeString x")
  case (Pair d e)
  have a: "snd (DecodeString x) \<noteq> None \<longleftrightarrow> \<not> wellFormed (stripNewlines x)"
    using DecodeString_accepts [of x] by (simp add: wellFormed_quantumFrom)
  show ?thesis
  proof (cases e)
    case None
    with Pair a have w: "wellFormed (stripNewlines x)" by simp
    show ?thesis
    proof (cases "x = []")
      case True
      with a show ?thesis
        by (simp add: decodeTagValue_def DecodeString_def Decode_Nil)
    next
      case False
      from DecodeString_shorter [OF False] Pair None have "d \<noteq> x" by auto
      with Pair None w False a show ?thesis by (simp add: decodeTagValue_def)
    qed
  next
    case (Some err)
    with Pair a have "\<not> wellFormed (stripNewlines x)" by simp
    with Pair Some a show ?thesis by (simp add: decodeTagValue_def)
  qed
qed

theorem decodeTagValue_fallback_witness:
  "snd (DecodeString ''feature-x'') \<noteq> None \<and>
   decodeTagValue ''feature-x'' = ''feature-x'' \<and>
   decodeTagValue ''YQ='' = ''YQ='' \<and>
   decodeTagValue ''YQ==YQ=='' = ''YQ==YQ=='' \<and>
   decodeTagValue [CHR ''Y'', CHR ''Q'', CHR 0x0D, CHR 0x0A, CHR ''='', CHR ''=''] \<noteq>
     [CHR ''Y'', CHR ''Q'', CHR 0x0D, CHR 0x0A, CHR ''='', CHR ''='']"
  using decodeTagValue_fallback [of "''feature-x''"] decodeTagValue_fallback [of "''YQ=''"]
    decodeTagValue_fallback [of "''YQ==YQ==''"]
    decodeTagValue_fallback [of "[CHR ''Y'', CHR ''Q'', CHR 0x0D, CHR 0x0A, CHR ''='', CHR ''='']"]
  by (simp add: stripNewlines_def inAlphabet_def encodeURL_def padChar_def)

subsection \<open>Listing\<close>

lemma getTags_found:
  "getTags ts name = Inr v \<Longrightarrow> v \<noteq> [] \<Longrightarrow> \<lparr>Key = Some name, Value = Some v\<rparr> \<in> set ts"
proof (induction ts)
  case Nil
  then show ?case by simp
next
  case (Cons t ts)
  show ?case
  proof (cases "Key t = Some name")
    case True
    with Cons.prems have "Value t = Some v"
      by (simp add: deref_def split: option.splits)
    with True have "t = \<lparr>Key = Some name, Value = Some v\<rparr>" by simp
    then show ?thesis by simp
  next
    case False
    with Cons.prems have "getTags ts name = Inr v"
      by (auto split: option.splits if_splits)
    with Cons show ?thesis by simp
  qed
qed

lemma taskInformation_managed:
  assumes "taskInformation e task = Inr (Some info)"
  shows "\<lparr>Key = Some ''ManagedBy'', Value = Some ''Mirage''\<rparr> \<in> set (Tags info)"
proof -
  from assms have g: "getTags (task_Tags task) ''ManagedBy'' = Inr ''Mirage''"
    by (auto simp: taskInformation_def getTagsFromTask_def TagManagedBy_def TagValueMirage_def
        split: sum.splits if_splits)
  from assms have "Tags info = task_Tags task"
    by (auto simp: taskInformation_def split: sum.splits if_splits)
  with getTags_found [OF g] show ?thesis by simp
qed

lemma appendTasks_managed:
  assumes "appendTasks e tasks infos = Inr infos'"
    and "\<forall>info\<in>set infos. P (Tags info)"
    and "\<And>task info. taskInformation e task = Inr (Some info) \<Longrightarrow> P (Tags info)"
  shows "\<forall>info\<in>set infos'. P (Tags info)"
  using assms(1,2)
proof (induction tasks arbitrary: infos)
  case Nil
  then show ?case by simp
next
  case (Cons task tasks)
  show ?case
  proof (cases "taskInformation e task")
    case (Inl p)
    with Cons.prems show ?thesis by simp
  next
    case (Inr r)
    show ?thesis
    proof (cases r)
      case None
      with Inr Cons show ?thesis by simp
    next
      case (Some info)
      with Inr assms(3) have "P (Tags info)" by simp
      with Cons.prems(2) have "\<forall>i\<in>set (infos @ [info]). P (Tags i)" by simp
      from Cons.IH [OF _ this] Cons.prems(1) Inr Some show ?thesis by simp
    qed
  qed
qed

lemma List_pages_managed_sorted:
  assumes "List_pages n e desiredStatus nextToken infos = Some (Inr (infos', err))"
    and "\<forall>info\<in>set infos. \<lparr>Key = Some ''ManagedBy'', Value = Some ''Mirage''\<rparr> \<in> set (Tags info)"
  shows "(\<forall>info\<in>set infos'. \<lparr>Key = Some ''ManagedBy'', Value = Some ''Mirage''\<rparr> \<in> set (Tags info)) \<and>
         (err = None \<longrightarrow> sorted (map SubDomain infos'))"
  using assms
proof (induction n arbitrary: nextToken infos)
  case 0
  then show ?case by simp
next
  case (Suc n)
  let ?P = "\<lambda>ts. \<lparr>Key = Some ''ManagedBy'', Value = Some ''Mirage''\<rparr> \<in> set ts"
  show ?case
  proof (cases "ListTasks e (Cluster e) nextToken desiredStatus")
    case (Inl err')
    with Suc.prems show ?thesis by auto
  next
    case (Inr listOut)
    show ?thesis
    proof (cases "length (TaskArns listOut) = 0")
      case True
      with Inr Suc.prems show ?thesis by auto
    next
      case ne: False
      show ?thesis
      proof (cases "DescribeTasks e (Cluster e) (TaskArns listOut)")
        case (Inl err')
        with Inr ne Suc.prems show ?thesis by auto
      next
        case tasks: (Inr tasks)
        show ?thesis
        proof (cases "appendTasks e tasks infos")
          case (Inl p)
          with Inr ne tasks Suc.prems show ?thesis by simp
        next
          case app: (Inr infos2)
          have m: "\<forall>info\<in>set infos2. ?P (Tags info)"
            by (rule appendTasks_managed [OF app Suc.prems(2)]) (rule taskInformation_managed)
          show ?thesis
          proof (cases "NextToken listOut")
            case None
            with Inr ne tasks app Suc.prems(1)
            have "infos' = sort_key SubDomain infos2" and "err = None" by simp_all
            with m show ?thesis by simp
          next
            case (Some tok)
            with Inr ne tasks app Suc.prems(1)
            have "List_pages n e desiredStatus (Some tok) infos2 = Some (Inr (infos', err))"
              by simp
            from Suc.IH [OF this m] show ?thesis .
          qed
        qed
      qed
    qed
  qed
qed

text \<open>
  Claim C9. Whatever the desired status, every entry of the list that \<open>List\<close> returns has
  the tag \<open>ManagedBy = Mirage\<close> among its tags (a task without it contributes no entry), and
  the list that \<open>List\<close> returns with a nil error is sorted by subdomain in ascending order.
\<close>

theorem List_managed_sorted:
  assumes "ECS_List n e desiredStatus = Some (Inr (infos, err))"
  shows "(\<forall>info\<in>set infos. \<lparr>Key = Some ''ManagedBy'', Value = Some ''Mirage''\<rparr> \<in> set (Tags info)) \<and>
         (err = None \<longrightarrow> sorted (map SubDomain infos))"
  using List_pages_managed_sorted [of n e desiredStatus None "[]" infos err] assms
  by (simp add: ECS_List_def)


lemma decode_examples:
  "decodeTagValue ''YQ=='' = ''a''" "decodeTagValue ''Yg=='' = ''b''"
proof -
  have c: "char_of (97::nat) = CHR ''a''" "char_of (98::nat) = CHR ''b''" by code_simp+
  show "decodeTagValue ''YQ=='' = ''a''" "decodeTagValue ''Yg=='' = ''b''"
    by (simp_all add: decodeTagValue_def b64_eval c)
qed

lemma shortenArn_examples:
  "shortenArn ''arn:aws:ecs:r:1:task/mirage/t1'' = ''t1''"
  "shortenArn ''arn:aws:ecs:r:1:task/mirage/t3'' = ''t3''"
  "shortenArn ''arn:aws:ecs:r:1:task-definition/web:3'' = ''web:3''"
  by (simp_all add: shortenArn_def SplitN_def Split_def)

lemma taskInformation_examples:
  "taskInformation ecs_example (task_example ''arn:aws:ecs:r:1:task/mirage/t1'' ''Mirage'' ''Yg=='') =
     Inr (Some (info_listed ''t1'' ''b'' ''Yg==''))"
  "taskInformation ecs_example (task_example ''arn:aws:ecs:r:1:task/mirage/t3'' ''Mirage'' ''YQ=='') =
     Inr (Some (info_listed ''t3'' ''a'' ''YQ==''))"
  "taskInformation ecs_example (task_example ''arn:aws:ecs:r:1:task/mirage/t2'' ''Other'' ''Yw=='') =
     Inr None"
  by (simp_all add: taskInformation_def task_example_def ecs_example_def info_listed_def
      getTagsFromTask_def TagManagedBy_def TagValueMirage_def deref_def getEnvironmentFromTask_def
      getEnvironmentsFromTask_def getIPV4AddressFromTask_def decode_examples shortenArn_examples)

lemma ECS_List_example:
  "ECS_List 2 ecs_example ''RUNNING'' =
     Some (Inr ([info_listed ''t3'' ''a'' ''YQ=='', info_listed ''t1'' ''b'' ''Yg==''], None))"
proof -
  have 1: "ListTasks ecs_example ''mirage'' None ''RUNNING'' =
      Inr \<lparr>TaskArns = [''t1'', ''t2''], NextToken = Some ''page2''\<rparr>"
    and 2: "ListTasks ecs_example ''mirage'' (Some ''page2'') ''RUNNING'' =
      Inr \<lparr>TaskArns = [''t3''], NextToken = None\<rparr>"
    and 3: "DescribeTasks ecs_example ''mirage'' [''t1'', ''t2''] =
      Inr [task_example ''arn:aws:ecs:r:1:task/mirage/t1'' ''Mirage'' ''Yg=='',
           task_example ''arn:aws:ecs:r:1:task/mirage/t2'' ''Other'' ''Yw=='']"
    and 4: "DescribeTasks ecs_example ''mirage'' [''t3''] =
      Inr [task_example ''arn:aws:ecs:r:1:task/mirage/t3'' ''Mirage'' ''YQ=='']"
    and 5: "Cluster ecs_example = ''mirage''"
    by (simp_all add: ecs_example_def)
  have s: "SubDomain (info_listed ''t3'' ''a'' ''YQ=='') = ''a''"
    "SubDomain (info_listed ''t1'' ''b'' ''Yg=='') = ''b''"
    by (simp_all add: info_listed_def)
  have lt: "''a'' \<le> ''b''" by (simp add: less_eq_char_def)
  have "List_pages (Suc (Suc 0)) ecs_example ''RUNNING'' None [] =
     Some (Inr ([info_listed ''t3'' ''a'' ''YQ=='', info_listed ''t1'' ''b'' ''Yg==''], None))"
    by (simp add: 1 2 3 4 5 taskInformation_examples s lt)
  then show ?thesis by (simp add: ECS_List_def numeral_2_eq_2)
qed

theorem List_managed_sorted_witness:
  "ECS_List 2 ecs_example ''RUNNING'' =
     Some (Inr ([info_listed ''t3'' ''a'' ''YQ=='', info_listed ''t1'' ''b'' ''Yg==''], None)) \<and>
   list_all (\<lambda>info. \<lparr>Key = Some ''ManagedBy'', Value = Some ''Mirage''\<rparr> \<in> set (Tags info))
     [info_listed ''t3'' ''a'' ''YQ=='', info_listed ''t1'' ''b'' ''Yg==''] \<and>
   sorted (map SubDomain [info_listed ''t3'' ''a'' ''YQ=='', info_listed ''t1'' ''b'' ''Yg==''])"
  using List_managed_sorted [OF ECS_List_example] ECS_List_example
  by simp

subsection \<open>The subdomain validator\<close>

lemmas match_eval = Match.simps matchChunkFrom.simps classRanges.simps checkRest.simps
  scanChunk_def matchChunk_def getEsc_def DecodeRuneInString_def RuneError_def

lemma matchPieces_done: "matchPieces [Piece cls 0 0] s \<longleftrightarrow> s = []"
  by (cases s) simp_all

lemma matchPieces_once: "matchPieces [Piece l (Suc 0) (Suc 0)] s \<longleftrightarrow> (\<exists>b. s = [b] \<and> l b)"
  by (cases s) (auto simp: matchPieces_done)

lemma matchPieces_skip: "matchPieces (Piece cls 0 0 # ps) s \<longleftrightarrow> matchPieces ps s"
  by (cases s) simp_all

lemma matchPieces_rep_last:
  "matchPieces [Piece m 0 k, Piece l (Suc 0) (Suc 0)] s \<longleftrightarrow>
     (\<exists>mid b. s = mid @ [b] \<and> list_all m mid \<and> length mid \<le> k \<and> l b)"
proof (induction s arbitrary: k)
  case Nil
  show ?case by simp
next
  case (Cons c cs)
  have "matchPieces [Piece m 0 k, Piece l (Suc 0) (Suc 0)] (c # cs) \<longleftrightarrow>
        (0 < k \<and> m c \<and> matchPieces [Piece m 0 (k - 1), Piece l (Suc 0) (Suc 0)] cs) \<or> (cs = [] \<and> l c)"
    using matchPieces_once [of l "c # cs"] by auto
  also have "\<dots> \<longleftrightarrow>
        (0 < k \<and> m c \<and> (\<exists>mid b. cs = mid @ [b] \<and> list_all m mid \<and> length mid \<le> k - 1 \<and> l b)) \<or>
        (cs = [] \<and> l c)"
    by (simp only: Cons.IH)
  also have "\<dots> \<longleftrightarrow> (\<exists>mid b. c # cs = mid @ [b] \<and> list_all m mid \<and> length mid \<le> k \<and> l b)"
    (is "?L \<longleftrightarrow> ?R")
  proof
    assume ?L
    then show ?R
    proof
      assume "0 < k \<and> m c \<and> (\<exists>mid b. cs = mid @ [b] \<and> list_all m mid \<and> length mid \<le> k - 1 \<and> l b)"
      then obtain mid b where "0 < k" "m c" "cs = mid @ [b]" "list_all m mid" "length mid \<le> k - 1" "l b"
        by blast
      then have "c # cs = (c # mid) @ [b] \<and> list_all m (c # mid) \<and> length (c # mid) \<le> k \<and> l b"
        by auto
      then show ?R by blast
    next
      assume "cs = [] \<and> l c"
      then have "c # cs = [] @ [c] \<and> list_all m [] \<and> length ([] :: string) \<le> k \<and> l c" by simp
      then show ?R by blast
    qed
  next
    assume ?R
    then obtain mid b where *: "c # cs = mid @ [b]" "list_all m mid" "length mid \<le> k" "l b"
      by blast
    show ?L
    proof (cases mid)
      case Nil
      with * show ?thesis by simp
    next
      case (Cons d mid')
      with * have "0 < k" "m c" "cs = mid' @ [b]" "list_all m mid'" "length mid' \<le> k - 1"
        by auto
      with * show ?thesis by blast
    qed
  qed
  finally show ?case .
qed

lemma matchPieces_three:
  "matchPieces [Piece f (Suc 0) (Suc 0), Piece m 0 k, Piece l (Suc 0) (Suc 0)] s \<longleftrightarrow>
     (\<exists>a mid b. s = a # mid @ [b] \<and> f a \<and> list_all m mid \<and> length mid \<le> k \<and> l b)"
proof (cases s)
  case Nil
  then show ?thesis by simp
next
  case (Cons c cs)
  then have "matchPieces [Piece f (Suc 0) (Suc 0), Piece m 0 k, Piece l (Suc 0) (Suc 0)] s \<longleftrightarrow>
      f c \<and> matchPieces [Piece m 0 k, Piece l (Suc 0) (Suc 0)] cs"
    by (simp add: matchPieces_skip)
  with Cons show ?thesis by (auto simp: matchPieces_rep_last)
qed

lemma shape_iff:
  "(\<exists>a mid b. s = a # mid @ [b] \<and> f a \<and> list_all m mid \<and> length mid \<le> k \<and> l b) \<longleftrightarrow>
   2 \<le> length s \<and> length s \<le> k + 2 \<and> f (hd s) \<and> l (last s) \<and> (\<forall>c\<in>set (butlast (tl s)). m c)"
  (is "?L \<longleftrightarrow> ?R")
proof
  assume ?L
  then obtain a mid b where "s = a # mid @ [b]" "f a" "list_all m mid" "length mid \<le> k" "l b"
    by blast
  then show ?R by (simp add: list_all_iff)
next
  assume r: ?R
  then obtain a t where s: "s = a # t" by (cases s) auto
  with r have "t \<noteq> []" by auto
  then obtain mid b where t: "t = mid @ [b]" by (metis rev_exhaust)
  from r s t have "s = a # mid @ [b] \<and> f a \<and> list_all m mid \<and> length mid \<le> k \<and> l b"
    by (simp add: list_all_iff)
  then show ?L by blast
qed

lemma DNSNameRegexpWithPattern_iff:
  "MatchString DNSNameRegexpWithPattern s \<longleftrightarrow>
     2 \<le> length s \<and> length s \<le> 63 \<and>
     (isLetter (hd s) \<or> isGlobMeta (hd s)) \<and>
     (isLetter (last s) \<or> isDigit (last s) \<or> isGlobMeta (last s)) \<and>
     (\<forall>c\<in>set (butlast (tl s)). isLetter c \<or> isDigit c \<or> c = CHR ''-'' \<or> isGlobMeta c)"
  unfolding MatchString_def DNSNameRegexpWithPattern_def One_nat_def matchPieces_three shape_iff
  by simp

lemmas class_eval = isLetter_def isDigit_def isGlobMeta_def inRange_def less_eq_char_def

lemma validateSubdomain_examples:
  "validateSubdomain ''abc'' = None" "validateSubdomain ''a-b-c'' = None"
  "validateSubdomain ''a*c'' = None" "validateSubdomain ''[ab]c'' = None"
  "validateSubdomain [] \<noteq> None" "validateSubdomain ''a'' \<noteq> None"
  "validateSubdomain ''-ab'' \<noteq> None" "validateSubdomain ''ab-'' \<noteq> None"
  "validateSubdomain ''ab/cd'' \<noteq> None"
  by (simp_all add: validateSubdomain_def MatchString_def DNSNameRegexpWithPattern_def
      class_eval match_eval)

text \<open>
  Claim C5, as stated, fails for a first character that is a digit: \<open>1a\<close> has two
  characters, both alphanumeric, and is a valid glob pattern, but the validator rejects it
  (the first class of the regular expression has letters and glob characters only).
\<close>

theorem validateSubdomain_digit_counterexample:
  "validateSubdomain ''1a'' \<noteq> None \<and>
   length ''1a'' = 2 \<and> isDigit (hd ''1a'') \<and> isLetter (last ''1a'') \<and> butlast (tl ''1a'') = [] \<and>
   snd (Match ''1a'' ''x'') = None"
  by (simp add: validateSubdomain_def MatchString_def DNSNameRegexpWithPattern_def
      class_eval match_eval)

text \<open>
  Claim C5, amended: \<open>validateSubdomain\<close> accepts \<open>s\<close> if and only if \<open>s\<close> has 2 to 63
  characters, its first character is a letter or a glob character (\<open>*\<close>, \<open>?\<close>, \<open>[\<close>, \<open>]\<close>), its
  last character is a letter, a digit or a glob character, the characters between them are
  letters, digits, glob characters or \<open>-\<close>, and \<open>path.Match\<close> reports no syntax error for \<open>s\<close> as
  a pattern; it accepts \<open>abc\<close>, \<open>a-b-c\<close>, \<open>a*c\<close>, \<open>[ab]c\<close> and rejects the empty string, \<open>a\<close>,
  \<open>-ab\<close>, \<open>ab-\<close>, every string of 64 or more characters, and \<open>ab/cd\<close>.
\<close>

theorem validateSubdomain_iff:
  "(validateSubdomain s = None \<longleftrightarrow>
      2 \<le> length s \<and> length s \<le> 63 \<and>
      (isLetter (hd s) \<or> isGlobMeta (hd s)) \<and>
      (isLetter (last s) \<or> isDigit (last s) \<or> isGlobMeta (last s)) \<and>
      (\<forall>c\<in>set (butlast (tl s)). isLetter c \<or> isDigit c \<or> c = CHR ''-'' \<or> isGlobMeta c) \<and>
      snd (Match s ''x'') = None) \<and>
   validateSubdomain ''abc'' = None \<and> validateSubdomain ''a-b-c'' = None \<and>
   validateSubdomain ''a*c'' = None \<and> validateSubdomain ''[ab]c'' = None \<and>
   validateSubdomain [] \<noteq> None \<and> validateSubdomain ''a'' \<noteq> None \<and>
   validateSubdomain ''-ab'' \<noteq> None \<and> validateSubdomain ''ab-'' \<noteq> None \<and>
   validateSubdomain ''ab/cd'' \<noteq> None \<and>
   (64 \<le> length t \<longrightarrow> validateSubdomain t \<noteq> None)"
proof -
  have "validateSubdomain s = None \<longleftrightarrow>
      2 \<le> length s \<and> length s \<le> 63 \<and> MatchString DNSNameRegexpWithPattern s \<and>
      snd (Match s ''x'') = None"
    by (auto simp: validateSubdomain_def split: option.splits)
  then have 1: "validateSubdomain s = None \<longleftrightarrow>
      2 \<le> length s \<and> length s \<le> 63 \<and>
      (isLetter (hd s) \<or> isGlobMeta (hd s)) \<and>
      (isLetter (last s) \<or> isDigit (last s) \<or> isGlobMeta (last s)) \<and>
      (\<forall>c\<in>set (butlast (tl s)). isLetter c \<or> isDigit c \<or> c = CHR ''-'' \<or> isGlobMeta c) \<and>
      snd (Match s ''x'') = None"
    unfolding DNSNameRegexpWithPattern_iff by blast
  have 2: "64 \<le> length t \<longrightarrow> validateSubdomain t \<noteq> None"
    by (auto simp: validateSubdomain_def)
  from 1 2 validateSubdomain_examples show ?thesis by blast
qed

theorem validateSubdomain_iff_witness:
  "validateSubdomain ''pr-*'' = None \<and> validateSubdomain ''a['' \<noteq> None \<and>
   validateSubdomain (replicate 64 (CHR ''a'')) \<noteq> None"
proof -
  have a: "snd (Match ''pr-*'' ''x'') = None" by (simp add: match_eval)
  have b: "snd (Match ''a['' ''x'') \<noteq> None" by (simp add: match_eval)
  from validateSubdomain_iff [of "''pr-*''" "replicate 64 (CHR ''a'')"]
    validateSubdomain_iff [of "''a[''" "[]"] a b
  show ?thesis by (simp add: class_eval)
qed

subsection \<open>The registry of proxy handlers\<close>

lemma Handler_range_found:
  "Handler_range m now order = (Some h, m') \<Longrightarrow>
   \<exists>addr hp. m addr = Some hp \<and> handler hp = h \<and> now < timer hp \<and> m' addr = Some hp"
proof (induction order arbitrary: m)
  case Nil
  then show ?case by simp
next
  case (Cons ip order)
  show ?case
  proof (cases "m ip")
    case None
    with Cons.prems have "Handler_range m now order = (Some h, m')" by simp
    from Cons.IH [OF this] show ?thesis .
  next
    case (Some hp0)
    show ?thesis
    proof (cases "alive hp0 now")
      case True
      with Some Cons.prems have "handler hp0 = h" "m' = m" by simp_all
      with Some True show ?thesis by (auto simp: alive_def)
    next
      case False
      with Some Cons.prems have "Handler_range (m(ip := None)) now order = (Some h, m')" by simp
      from Cons.IH [OF this] obtain addr hp where
        *: "(m(ip := None)) addr = Some hp" "handler hp = h" "now < timer hp" "m' addr = Some hp"
        by blast
      from *(1) have "m addr = Some hp" by (auto split: if_splits)
      with * show ?thesis by blast
    qed
  qed
qed

lemma Handler_range_result:
  "Handler_range m now order = (res, m') \<Longrightarrow>
   (res \<noteq> None \<longleftrightarrow> (\<exists>addr\<in>set order. \<exists>hp. m addr = Some hp \<and> now < timer hp))"
proof (induction order arbitrary: m)
  case Nil
  then show ?case by auto
next
  case (Cons ip order)
  show ?case
  proof (cases "m ip")
    case None
    with Cons.prems have "Handler_range m now order = (res, m')" by simp
    from Cons.IH [OF this] None show ?thesis by auto
  next
    case (Some hp0)
    show ?thesis
    proof (cases "alive hp0 now")
      case True
      with Some Cons.prems have "res = Some (handler hp0)" by simp
      with Some True show ?thesis by (auto simp: alive_def)
    next
      case False
      with Some Cons.prems have "Handler_range (m(ip := None)) now order = (res, m')" by simp
      from Cons.IH [OF this]
      have "res \<noteq> None \<longleftrightarrow> (\<exists>addr\<in>set order. \<exists>hp. (m(ip := None)) addr = Some hp \<and> now < timer hp)" .
      also have "\<dots> \<longleftrightarrow> (\<exists>addr\<in>set (ip # order). \<exists>hp. m addr = Some hp \<and> now < timer hp)"
        (is "?L \<longleftrightarrow> ?R")
      proof
        assume ?L
        then obtain addr hp where "addr \<in> set order" "(m(ip := None)) addr = Some hp" "now < timer hp"
          by blast
        moreover from this have "m addr = Some hp" by (auto split: if_splits)
        ultimately show ?R by auto
      next
        assume ?R
        then obtain addr hp where a: "addr \<in> set (ip # order)" "m addr = Some hp" "now < timer hp"
          by blast
        with Some False have ne: "addr \<noteq> ip" by (auto simp: alive_def)
        with a have "addr \<in> set order" "(m(ip := None)) addr = Some hp" by simp_all
        with a(3) show ?L by blast
      qed
      finally show ?thesis .
    qed
  qed
qed

lemma Handler_range_sub:
  "Handler_range m now order = (res, m') \<Longrightarrow> m' addr = Some hp \<Longrightarrow> m addr = Some hp"
proof (induction order arbitrary: m)
  case Nil
  then show ?case by simp
next
  case (Cons ip order)
  show ?case
  proof (cases "m ip")
    case None
    with Cons show ?thesis by simp
  next
    case (Some hp0)
    show ?thesis
    proof (cases "alive hp0 now")
      case True
      with Some Cons.prems show ?thesis by simp
    next
      case False
      with Some Cons.prems have "Handler_range (m(ip := None)) now order = (res, m')" by simp
      from Cons.IH [OF this Cons.prems(2)] show ?thesis by (auto split: if_splits)
    qed
  qed
qed

lemma Handler_range_keeps_live:
  "Handler_range m now order = (res, m') \<Longrightarrow> m addr = Some hp \<Longrightarrow> now < timer hp \<Longrightarrow>
   m' addr = Some hp"
proof (induction order arbitrary: m)
  case Nil
  then show ?case by simp
next
  case (Cons ip order)
  show ?case
  proof (cases "m ip")
    case None
    with Cons show ?thesis by simp
  next
    case (Some hp0)
    show ?thesis
    proof (cases "alive hp0 now")
      case True
      with Some Cons.prems show ?thesis by simp
    next
      case False
      with Some Cons.prems have r: "Handler_range (m(ip := None)) now order = (res, m')" by simp
      from False Some Cons.prems(2,3) have "addr \<noteq> ip" by (auto simp: alive_def)
      with Cons.prems(2) have "(m(ip := None)) addr = Some hp" by simp
      from Cons.IH [OF r this Cons.prems(3)] show ?thesis .
    qed
  qed
qed

lemma Handler_range_none:
  "Handler_range m now order = (None, m') \<Longrightarrow> addr \<in> set order \<Longrightarrow> m' addr = None"
proof (induction order arbitrary: m)
  case Nil
  then show ?case by simp
next
  case (Cons ip order)
  show ?case
  proof (cases "m ip")
    case None
    with Cons.prems have r: "Handler_range m now order = (None, m')" by simp
    show ?thesis
    proof (cases "addr \<in> set order")
      case True
      from Cons.IH [OF r True] show ?thesis .
    next
      case False
      with Cons.prems have "addr = ip" by simp
      with None have "m addr = None" by simp
      with Handler_range_sub [OF r] show ?thesis by (cases "m' addr") auto
    qed
  next
    case (Some hp0)
    show ?thesis
    proof (cases "alive hp0 now")
      case True
      with Some Cons.prems show ?thesis by simp
    next
      case False
      with Some Cons.prems have r: "Handler_range (m(ip := None)) now order = (None, m')" by simp
      show ?thesis
      proof (cases "addr \<in> set order")
        case True
        from Cons.IH [OF r True] show ?thesis .
      next
        case False
        with Cons.prems have "addr = ip" by simp
        then have "(m(ip := None)) addr = None" by simp
        with Handler_range_sub [OF r] show ?thesis by (cases "m' addr") auto
      qed
    qed
  qed
qed

lemma Handler_found:
  assumes "Handler ph port now order = (Some h, ph')"
  shows "\<exists>addr hp. lookup ph port addr = Some hp \<and> handler hp = h \<and> now < timer hp \<and>
           lookup ph' port addr = Some hp"
proof -
  from assms obtain handlers handlers' where
    h: "ph port = Some handlers" "Handler_range handlers now order = (Some h, handlers')"
      "ph' = ph(port \<mapsto> handlers')"
    by (auto simp: Handler_def split: option.splits if_splits prod.splits)
  from Handler_range_found [OF h(2)] h(1,3) show ?thesis
    by (auto simp: lookup_def)
qed

lemma Handler_result:
  assumes "Handler ph port now order = (res, ph')"
    and "\<forall>addr. lookup ph port addr \<noteq> None \<longrightarrow> addr \<in> set order"
  shows "res \<noteq> None \<longleftrightarrow> (\<exists>addr hp. lookup ph port addr = Some hp \<and> now < timer hp)"
proof (cases "ph port")
  case None
  with assms(1) show ?thesis by (simp add: Handler_def lookup_def)
next
  case (Some handlers)
  show ?thesis
  proof (cases "dom handlers = {}")
    case True
    then have "\<And>addr. handlers addr = None" by auto
    with Some True assms(1) show ?thesis by (simp add: Handler_def lookup_def)
  next
    case False
    with Some assms(1) obtain handlers' where
      "Handler_range handlers now order = (res, handlers')"
      by (auto simp: Handler_def split: prod.splits)
    from Handler_range_result [OF this]
    have "res \<noteq> None \<longleftrightarrow> (\<exists>addr\<in>set order. \<exists>hp. handlers addr = Some hp \<and> now < timer hp)" .
    also have "\<dots> \<longleftrightarrow> (\<exists>addr hp. handlers addr = Some hp \<and> now < timer hp)"
      using assms(2) Some by (fastforce simp: lookup_def)
    finally show ?thesis using Some by (simp add: lookup_def)
  qed
qed

lemma Handler_sub:
  assumes "Handler ph port now order = (res, ph')" and "lookup ph' q addr = Some hp"
  shows "lookup ph q addr = Some hp"
proof (cases "ph port")
  case None
  with assms show ?thesis by (simp add: Handler_def)
next
  case (Some handlers)
  show ?thesis
  proof (cases "dom handlers = {}")
    case True
    with Some assms show ?thesis by (simp add: Handler_def)
  next
    case False
    with Some assms(1) obtain handlers' where
      h: "Handler_range handlers now order = (res, handlers')" "ph' = ph(port \<mapsto> handlers')"
      by (auto simp: Handler_def split: prod.splits)
    show ?thesis
    proof (cases "q = port")
      case True
      with h(2) assms(2) have "handlers' addr = Some hp" by (simp add: lookup_def)
      from Handler_range_sub [OF h(1) this] Some True show ?thesis by (simp add: lookup_def)
    next
      case False
      with h(2) assms(2) show ?thesis by (simp add: lookup_def)
    qed
  qed
qed

lemma Handler_keeps_live:
  assumes "Handler ph port now order = (res, ph')" and "lookup ph q addr = Some hp"
    and "now < timer hp"
  shows "lookup ph' q addr = Some hp"
proof (cases "ph port")
  case None
  with assms show ?thesis by (simp add: Handler_def)
next
  case (Some handlers)
  show ?thesis
  proof (cases "dom handlers = {}")
    case True
    with Some assms show ?thesis by (simp add: Handler_def)
  next
    case False
    with Some assms(1) obtain handlers' where
      h: "Handler_range handlers now order = (res, handlers')" "ph' = ph(port \<mapsto> handlers')"
      by (auto simp: Handler_def split: prod.splits)
    show ?thesis
    proof (cases "q = port")
      case True
      with Some assms(2) have "handlers addr = Some hp" by (simp add: lookup_def)
      from Handler_range_keeps_live [OF h(1) this assms(3)] h(2) True show ?thesis
        by (simp add: lookup_def)
    next
      case False
      with h(2) assms(2) show ?thesis by (simp add: lookup_def)
    qed
  qed
qed

lemma Handler_none:
  assumes "Handler ph port now order = (None, ph')"
    and "\<forall>addr. lookup ph port addr \<noteq> None \<longrightarrow> addr \<in> set order"
  shows "lookup ph' port addr = None"
proof (cases "lookup ph' port addr")
  case None
  then show ?thesis .
next
  case (Some hp)
  from Handler_sub [OF assms(1) Some] have in_ph: "lookup ph port addr = Some hp" .
  with assms(2) have mem: "addr \<in> set order" by auto
  from in_ph obtain handlers where hs: "ph port = Some handlers" "handlers addr = Some hp"
    by (auto simp: lookup_def split: option.splits)
  then have "dom handlers \<noteq> {}" by auto
  with hs assms(1) obtain handlers' where
    h: "Handler_range handlers now order = (None, handlers')" "ph' = ph(port \<mapsto> handlers')"
    by (auto simp: Handler_def split: prod.splits)
  from Handler_range_none [OF h(1) mem] h(2) show ?thesis by (simp add: lookup_def)
qed

lemma FindHandler_unresolved:
  assumes "\<not> (\<exists>name ph. resolves r s name \<and> domainMap r name = Some ph)"
  shows "FindHandler r now s port order = (None, r)"
proof (cases "domainMap r s")
  case (Some ph)
  then have "resolves r s s" by (simp add: resolves_def)
  with Some assms show ?thesis by blast
next
  case None
  show ?thesis
  proof (cases "find (\<lambda>n. fst (Match n s)) (domains r)")
    case no: None
    with None show ?thesis by (simp add: FindHandler_def)
  next
    case (Some name)
    with None have "resolves r s name" by (simp add: resolves_def)
    with assms have "domainMap r name = None" by (cases "domainMap r name") auto
    with None Some show ?thesis by (simp add: FindHandler_def)
  qed
qed

lemma FindHandler_resolved:
  assumes "resolves r s name" and "domainMap r name = Some ph"
  shows "FindHandler r now s port order =
         (case Handler ph port now order of
            (found, ph') \<Rightarrow> (found, r\<lparr>domainMap := (domainMap r)(name \<mapsto> ph')\<rparr>))"
proof (cases "domainMap r s")
  case (Some ph0)
  with assms(1) have "name = s" by (simp add: resolves_def)
  with assms(2) Some show ?thesis by (simp add: FindHandler_def)
next
  case None
  with assms(1) have "find (\<lambda>n. fst (Match n s)) (domains r) = Some name"
    by (simp add: resolves_def)
  with None assms(2) show ?thesis by (simp add: FindHandler_def)
qed

lemma resolves_unique: "resolves r s name \<Longrightarrow> resolves r s name' \<Longrightarrow> name' = name"
  by (auto simp: resolves_def split: if_splits)

lemma registered_update:
  "registered (r\<lparr>domainMap := (domainMap r)(name \<mapsto> ph')\<rparr>) n q addr =
     (if n = name then lookup ph' q addr else registered r n q addr)"
  by (simp add: registered_def)

lemma registered_Some:
  "domainMap r name = Some ph \<Longrightarrow> registered r name port addr = lookup ph port addr"
  by (simp add: registered_def)

lemma cover_lookup:
  assumes "\<forall>name addr. registered r name port addr \<noteq> None \<longrightarrow> addr \<in> set order"
    and "domainMap r name = Some ph"
  shows "\<forall>addr. lookup ph port addr \<noteq> None \<longrightarrow> addr \<in> set order"
proof (intro allI impI)
  fix addr
  assume "lookup ph port addr \<noteq> None"
  with registered_Some [OF assms(2), of port addr] have "registered r name port addr \<noteq> None"
    by simp
  with assms(1) show "addr \<in> set order" by blast
qed

lemma FindHandler_cases:
  obtains (unresolved) "FindHandler r now s port order = (None, r)"
      "\<And>name. resolves r s name \<Longrightarrow> domainMap r name = None"
  | (resolved) name ph found ph' where "resolves r s name" "domainMap r name = Some ph"
      "Handler ph port now order = (found, ph')"
      "FindHandler r now s port order = (found, r\<lparr>domainMap := (domainMap r)(name \<mapsto> ph')\<rparr>)"
proof (cases "\<exists>name ph. resolves r s name \<and> domainMap r name = Some ph")
  case False
  have "domainMap r name = None" if "resolves r s name" for name
  proof (cases "domainMap r name")
    case None
    then show ?thesis .
  next
    case (Some ph)
    with that False show ?thesis by blast
  qed
  with FindHandler_unresolved [OF False] show ?thesis by (rule unresolved)
next
  case True
  then obtain name ph where n: "resolves r s name" "domainMap r name = Some ph" by blast
  obtain found ph' where h: "Handler ph port now order = (found, ph')"
    by (cases "Handler ph port now order") auto
  from FindHandler_resolved [OF n, of now port order] h
  have "FindHandler r now s port order = (found, r\<lparr>domainMap := (domainMap r)(name \<mapsto> ph')\<rparr>)"
    by simp
  with n h resolved show ?thesis by blast
qed

lemma FindHandler_found:
  assumes "FindHandler r now s port order = (Some h, r')"
  shows "\<exists>name addr hp. resolves r s name \<and> registered r name port addr = Some hp \<and>
           handler hp = h \<and> now < timer hp \<and> registered r' name port addr = Some hp"
proof (cases rule: FindHandler_cases [of r now s port order])
  case unresolved
  with assms show ?thesis by simp
next
  case (resolved name ph found ph')
  with assms have f: "found = Some h" and r': "r' = r\<lparr>domainMap := (domainMap r)(name \<mapsto> ph')\<rparr>"
    by simp_all
  from Handler_found [OF resolved(3) [unfolded f]] obtain addr hp where
    "lookup ph port addr = Some hp" "handler hp = h" "now < timer hp" "lookup ph' port addr = Some hp"
    by blast
  with resolved(1,2) r' show ?thesis
    by (auto simp: registered_update) (auto simp: registered_def)
qed

lemma FindHandler_sub:
  assumes "FindHandler r now s port order = (res, r')" and "registered r' n q addr = Some hp"
  shows "registered r n q addr = Some hp"
proof (cases rule: FindHandler_cases [of r now s port order])
  case unresolved
  with assms show ?thesis by simp
next
  case (resolved name ph found ph')
  with assms have r': "r' = r\<lparr>domainMap := (domainMap r)(name \<mapsto> ph')\<rparr>" by simp
  show ?thesis
  proof (cases "n = name")
    case True
    with assms(2) r' have "lookup ph' q addr = Some hp" by (simp add: registered_update)
    from Handler_sub [OF resolved(3) this] resolved(2) True show ?thesis
      by (simp add: registered_def)
  next
    case False
    with assms(2) r' show ?thesis by (simp add: registered_update)
  qed
qed

lemma FindHandler_keeps_live:
  assumes "FindHandler r now s port order = (res, r')" and "registered r n q addr = Some hp"
    and "now < timer hp"
  shows "registered r' n q addr = Some hp"
proof (cases rule: FindHandler_cases [of r now s port order])
  case unresolved
  with assms show ?thesis by simp
next
  case (resolved name ph found ph')
  with assms have r': "r' = r\<lparr>domainMap := (domainMap r)(name \<mapsto> ph')\<rparr>" by simp
  show ?thesis
  proof (cases "n = name")
    case True
    with assms(2) resolved(2) have "lookup ph q addr = Some hp" by (simp add: registered_def)
    from Handler_keeps_live [OF resolved(3) this assms(3)] r' True show ?thesis
      by (simp add: registered_update)
  next
    case False
    with assms(2) r' show ?thesis by (simp add: registered_update)
  qed
qed

lemma FindHandler_result:
  assumes "FindHandler r now s port order = (res, r')"
    and "\<forall>name addr. registered r name port addr \<noteq> None \<longrightarrow> addr \<in> set order"
  shows "res \<noteq> None \<longleftrightarrow>
         (\<exists>name addr hp. resolves r s name \<and> registered r name port addr = Some hp \<and> now < timer hp)"
proof (cases rule: FindHandler_cases [of r now s port order])
  case unresolved
  with assms(1) show ?thesis by (auto simp: registered_def)
next
  case (resolved name ph found ph')
  with assms(1) have f: "found = res" by simp
  from cover_lookup [OF assms(2) resolved(2)]
  have "\<forall>addr. lookup ph port addr \<noteq> None \<longrightarrow> addr \<in> set order" .
  from Handler_result [OF resolved(3) this] f
  have "res \<noteq> None \<longleftrightarrow> (\<exists>addr hp. lookup ph port addr = Some hp \<and> now < timer hp)" by simp
  also have "\<dots> \<longleftrightarrow>
      (\<exists>name addr hp. resolves r s name \<and> registered r name port addr = Some hp \<and> now < timer hp)"
    (is "?L \<longleftrightarrow> ?R")
  proof
    assume ?L
    then obtain addr hp where "lookup ph port addr = Some hp" "now < timer hp" by blast
    with registered_Some [OF resolved(2), of port addr]
    have "resolves r s name \<and> registered r name port addr = Some hp \<and> now < timer hp"
      using resolved(1) by simp
    then show ?R by blast
  next
    assume ?R
    then obtain name' addr hp where
      *: "resolves r s name'" "registered r name' port addr = Some hp" "now < timer hp" by blast
    from resolves_unique [OF resolved(1) *(1)] have "name' = name" .
    with *(2) registered_Some [OF resolved(2), of port addr]
    have "lookup ph port addr = Some hp" by simp
    with *(3) show ?L by blast
  qed
  finally show ?thesis .
qed

lemma FindHandler_none:
  assumes "FindHandler r now s port order = (None, r')"
    and "\<forall>name addr. registered r name port addr \<noteq> None \<longrightarrow> addr \<in> set order"
    and "resolves r s name"
  shows "registered r' name port addr = None"
proof (cases rule: FindHandler_cases [of r now s port order])
  case unresolved
  with assms(1,3) show ?thesis by (simp add: registered_def)
next
  case (resolved name' ph found ph')
  from resolves_unique [OF resolved(1) assms(3)] have n: "name = name'" .
  from resolved assms(1) have f: "found = None"
    and r': "r' = r\<lparr>domainMap := (domainMap r)(name' \<mapsto> ph')\<rparr>" by simp_all
  from cover_lookup [OF assms(2) resolved(2)]
  have "\<forall>addr. lookup ph port addr \<noteq> None \<longrightarrow> addr \<in> set order" .
  from Handler_none [OF resolved(3) [unfolded f] this] r' n show ?thesis
    by (simp add: registered_update)
qed

subsection \<open>The example registries\<close>

lemma char_digits:
  "char_of (48::nat) = CHR ''0''" "char_of (49::nat) = CHR ''1''" "char_of (56::nat) = CHR ''8''"
  by code_simp+

lemma Itoa_examples: "Itoa 80 = ''80''" "Itoa 81 = ''81''" "Itoa 8000 = ''8000''"
  by (simp_all add: Itoa_def digits.simps char_digits)

lemma addr_examples:
  "JoinHostPort ''10.0.0.5'' (Itoa 80) = ''10.0.0.5:80''"
  "JoinHostPort ''10.0.0.5'' (Itoa 81) = ''10.0.0.5:81''"
  "JoinHostPort ''10.0.0.6'' (Itoa 80) = ''10.0.0.6:80''"
  "JoinHostPort ''10.0.0.5'' (Itoa 8000) = ''10.0.0.5:8000''"
  by (simp_all add: JoinHostPort_def Itoa_examples)

lemmas registry_eval = AddSubdomain_def addr_examples NewReverseProxy_def cfg_example_def
  exists_def add_def newProxyHandler_def Parse_example_def upstream_example_def second_def Let_def
  registry_new_def lifetime_example_def proxyHandlerLifetime_init_def

lemma registry_one_eq:
  "registry_one =
     \<lparr>cfg = cfg_example, domains = [''feature-x''],
      domainMap = [''feature-x'' \<mapsto> [8080 \<mapsto> [''10.0.0.5:80'' \<mapsto>
         \<lparr>handler = upstream_example ''feature-x'' ''10.0.0.5:80'', timer = 30 * second\<rparr>]]],
      accessCounters = [''feature-x'' \<mapsto> NewAccessCounter (60 * second)],
      accessCounterUnit = 60 * second\<rparr>"
  by (simp add: registry_one_def registry_eval)

lemma registry_two_eq:
  "registry_two =
     \<lparr>cfg = cfg_example, domains = [''pr-1'', ''pr-*''],
      domainMap = [''pr-1'' \<mapsto> [8081 \<mapsto> [''10.0.0.5:81'' \<mapsto>
           \<lparr>handler = upstream_example ''pr-1'' ''10.0.0.5:81'', timer = 30 * second\<rparr>]],
         ''pr-*'' \<mapsto> [8080 \<mapsto> [''10.0.0.6:80'' \<mapsto>
           \<lparr>handler = upstream_example ''pr-*'' ''10.0.0.6:80'', timer = 30 * second\<rparr>]]],
      accessCounters = [''pr-1'' \<mapsto> NewAccessCounter (60 * second),
         ''pr-*'' \<mapsto> NewAccessCounter (60 * second)],
      accessCounterUnit = 60 * second\<rparr>"
  by (simp add: registry_two_def registry_eval)

lemma Match_examples:
  "fst (Match ''pr-*'' ''pr-1'')" "fst (Match ''pr-*'' ''pr-42'')" "\<not> fst (Match ''pr-1'' ''pr-42'')"
  by (simp_all add: match_eval)

lemma FindHandler_one:
  "FindHandler registry_one (10 * second) ''feature-x'' 8080 [''10.0.0.5:80''] =
     (Some (upstream_example ''feature-x'' ''10.0.0.5:80''), registry_one)"
  by (simp add: registry_one_eq FindHandler_def Handler_def alive_def second_def)

lemma FindHandler_two_exact:
  "fst (FindHandler registry_two (10 * second) ''pr-1'' 8080 [''10.0.0.6:80'', ''10.0.0.5:81'']) = None"
  by (simp add: registry_two_eq FindHandler_def Handler_def alive_def second_def)

lemma FindHandler_two_glob:
  "fst (FindHandler registry_two (10 * second) ''pr-42'' 8080 [''10.0.0.6:80'']) =
     Some (upstream_example ''pr-*'' ''10.0.0.6:80'')"
  by (simp add: registry_two_eq FindHandler_def Handler_def alive_def second_def Match_examples)

lemma FindHandler_two_expired:
  "fst (FindHandler registry_two (40 * second) ''pr-42'' 8080 [''10.0.0.6:80'']) = None"
  by (simp add: registry_two_eq FindHandler_def Handler_def alive_def second_def Match_examples)

subsection \<open>Lookup and the deadline of a handler\<close>

text \<open>
  The package variable is positive at the start, and a constructor leaves it positive. A
  constructor in local mode changes it for the registries made after it as well.
\<close>

lemma NewReverseProxy_lifetime:
  "0 < proxyHandlerLifetime_init"
  "0 < lifetime \<Longrightarrow> 0 < snd (NewReverseProxy c lifetime)"
  by (simp_all add: proxyHandlerLifetime_init_def NewReverseProxy_def)

lemma NewReverseProxy_after_local:
  "snd (NewReverseProxy cfg_example proxyHandlerLifetime_init) = 30 * second"
  "snd (NewReverseProxy cfg_example
     (snd (NewReverseProxy (cfg_example\<lparr>localMode := True\<rparr>) proxyHandlerLifetime_init))) =
   315360000 * second"
  by (simp_all add: proxyHandlerLifetime_init_def NewReverseProxy_def cfg_example_def second_def)

lemma exists_extends:
  assumes "lookup ph port addr = Some hp" and "now < timer hp"
  shows "exists ph port addr now lifetime =
           (True, ph(port \<mapsto> (the (ph port))(addr \<mapsto> hp\<lparr>timer := now + lifetime\<rparr>)))"
    and "lookup (snd (exists ph port addr now lifetime)) port addr = Some (hp\<lparr>timer := now + lifetime\<rparr>)"
  using assms
  by (auto simp: exists_def lookup_def alive_def extend_timer_def split: option.splits)

lemma exists_other_port:
  "q \<noteq> port \<Longrightarrow> lookup (snd (exists ph q a now lifetime)) port addr = lookup ph port addr"
  by (auto simp: exists_def lookup_def split: option.splits)

lemma add_other_port:
  "q \<noteq> port \<Longrightarrow> lookup (add ph q a h now lifetime) port addr = lookup ph port addr"
  by (simp add: add_def lookup_def Let_def)

lemma AddSubdomain_listen_proxy:
  "snd (AddSubdomain_listen r lifetime Parse now subdomain addr targetPort vs ph True)"
  by (induction vs arbitrary: ph) (auto split: prod.splits bool.splits sum.splits)

lemma AddSubdomain_listen_served:
  assumes "TargetPort v = targetPort \<or> localMode (cfg r)"
  shows "AddSubdomain_listen r lifetime Parse now subdomain addr targetPort (v # vs) ph proxy =
     (case exists ph (ListenPort v) addr now lifetime of
        (True, ph') \<Rightarrow> AddSubdomain_listen r lifetime Parse now subdomain addr targetPort vs ph' True
      | (False, ph') \<Rightarrow>
          (case Parse (''http://'' @ addr) of
             Inl err \<Rightarrow> AddSubdomain_listen r lifetime Parse now subdomain addr targetPort vs ph' proxy
           | Inr url \<Rightarrow>
               AddSubdomain_listen r lifetime Parse now subdomain addr targetPort vs
                 (add ph' (ListenPort v) addr
                    \<lparr>destUrl = url, tp_Subdomain = subdomain,
                     tp_ProxyTimeout = Network_ProxyTimeout (cfg r),
                     tp_AuthCookieValidateFunc =
                       (if RequireAuthCookie v then Some (Auth_ValidateAuthCookie (cfg r))
                        else None)\<rparr>
                    now lifetime)
                 True))"
  using assms by auto

text \<open>
  The loop of \<open>AddSubdomain\<close> keeps a handler that is live at \<open>(port, addr)\<close>, and every listen
  mapping for that port which serves the target port resets its timer.
\<close>

lemma AddSubdomain_listen_extends:
  assumes "0 < lifetime" and "lookup ph port addr = Some hq" and "now < timer hq"
  shows "\<exists>hq'. lookup (fst (AddSubdomain_listen r lifetime Parse now subdomain addr targetPort vs ph proxy))
               port addr = Some hq' \<and>
           (hq' = hq \<or> hq' = hq\<lparr>timer := now + lifetime\<rparr>) \<and>
           ((\<exists>v\<in>set vs. ListenPort v = port \<and> (TargetPort v = targetPort \<or> localMode (cfg r))) \<longrightarrow>
              hq' = hq\<lparr>timer := now + lifetime\<rparr> \<and>
              snd (AddSubdomain_listen r lifetime Parse now subdomain addr targetPort vs ph proxy))"
  using assms(2,3)
proof (induction vs arbitrary: ph proxy hq)
  case Nil
  then show ?case by simp
next
  case (Cons v vs)
  let ?serves = "\<lambda>v. ListenPort v = port \<and> (TargetPort v = targetPort \<or> localMode (cfg r))"
  show ?case
  proof (cases "TargetPort v \<noteq> targetPort \<and> \<not> localMode (cfg r)")
    case True
    then have "AddSubdomain_listen r lifetime Parse now subdomain addr targetPort (v # vs) ph proxy =
        AddSubdomain_listen r lifetime Parse now subdomain addr targetPort vs ph proxy"
      by simp
    moreover from True have "(\<exists>w\<in>set (v # vs). ?serves w) \<longleftrightarrow> (\<exists>w\<in>set vs. ?serves w)"
      by auto
    ultimately show ?thesis
      using Cons.IH [OF Cons.prems, of proxy] by simp
  next
    case False
    then have "TargetPort v = targetPort \<or> localMode (cfg r)" by auto
    note served = AddSubdomain_listen_served [OF this]
    show ?thesis
    proof (cases "ListenPort v = port")
      case True
      let ?hq = "hq\<lparr>timer := now + lifetime\<rparr>"
      let ?ph = "ph(port \<mapsto> (the (ph port))(addr \<mapsto> ?hq))"
      from exists_extends(1) [OF Cons.prems, of lifetime] True
      have e: "exists ph (ListenPort v) addr now lifetime = (True, ?ph)" by simp
      then have step:
        "AddSubdomain_listen r lifetime Parse now subdomain addr targetPort (v # vs) ph proxy =
         AddSubdomain_listen r lifetime Parse now subdomain addr targetPort vs ?ph True"
        by (simp add: served del: AddSubdomain_listen.simps)
      have l: "lookup ?ph port addr = Some ?hq" by (simp add: lookup_def)
      have t: "now < timer ?hq" using assms(1) by simp
      from Cons.IH [OF l t, of True] obtain hq' where
        "lookup (fst (AddSubdomain_listen r lifetime Parse now subdomain addr targetPort vs ?ph True))
           port addr = Some hq'" and "hq' = ?hq \<or> hq' = ?hq\<lparr>timer := now + lifetime\<rparr>"
        by blast
      then have "lookup (fst (AddSubdomain_listen r lifetime Parse now subdomain addr targetPort vs ?ph True))
           port addr = Some ?hq" by auto
      with step AddSubdomain_listen_proxy [of r lifetime Parse now subdomain addr targetPort vs ?ph]
      show ?thesis by simp
    next
      case other: False
      obtain b ph1 where e: "exists ph (ListenPort v) addr now lifetime = (b, ph1)"
        by (cases "exists ph (ListenPort v) addr now lifetime") auto
      from exists_other_port [OF other, of ph addr now lifetime addr] e Cons.prems
      have l1: "lookup ph1 port addr = Some hq" by simp
      from other have sv: "(\<exists>w\<in>set (v # vs). ?serves w) \<longleftrightarrow> (\<exists>w\<in>set vs. ?serves w)"
        by auto
      obtain ph2 proxy2 where step:
        "AddSubdomain_listen r lifetime Parse now subdomain addr targetPort (v # vs) ph proxy =
         AddSubdomain_listen r lifetime Parse now subdomain addr targetPort vs ph2 proxy2"
        and l2: "lookup ph2 port addr = Some hq"
      proof (cases b)
        case True
        with e l1 that [of ph1 True] show ?thesis
          by (simp add: served del: AddSubdomain_listen.simps)
      next
        case nb: False
        show ?thesis
        proof (cases "Parse (''http://'' @ addr)")
          case (Inl err)
          with e nb l1 that [of ph1 proxy] show ?thesis
            by (simp add: served del: AddSubdomain_listen.simps)
        next
          case (Inr url)
          let ?h = "\<lparr>destUrl = url, tp_Subdomain = subdomain,
              tp_ProxyTimeout = Network_ProxyTimeout (cfg r),
              tp_AuthCookieValidateFunc =
                (if RequireAuthCookie v then Some (Auth_ValidateAuthCookie (cfg r)) else None)\<rparr>"
          from add_other_port [OF other, of ph1 addr ?h now lifetime addr] l1
          have "lookup (add ph1 (ListenPort v) addr ?h now lifetime) port addr = Some hq" by simp
          with e nb Inr that [of "add ph1 (ListenPort v) addr ?h now lifetime" True]
          show ?thesis by (simp add: served del: AddSubdomain_listen.simps)
        qed
      qed
      from Cons.IH [OF l2 Cons.prems(2), of proxy2] step sv show ?thesis by simp
    qed
  qed
qed

lemma AddSubdomain_extends:
  assumes "0 < lifetime" and "v \<in> set (Listen_HTTP (cfg r))"
    and "TargetPort v = targetPort \<or> localMode (cfg r)"
    and "registered r subdomain (ListenPort v) (JoinHostPort ipaddress (Itoa targetPort)) = Some hp"
    and "now < timer hp"
  shows "\<not> snd (AddSubdomain r lifetime Parse now subdomain ipaddress targetPort)"
    and "registered (fst (AddSubdomain r lifetime Parse now subdomain ipaddress targetPort)) subdomain
           (ListenPort v) (JoinHostPort ipaddress (Itoa targetPort)) =
         Some (hp\<lparr>timer := now + lifetime\<rparr>)"
proof -
  let ?addr = "JoinHostPort ipaddress (Itoa targetPort)"
  from assms(4) obtain ph0 where d: "domainMap r subdomain = Some ph0"
    and l: "lookup ph0 (ListenPort v) ?addr = Some hp"
    by (auto simp: registered_def split: option.splits)
  let ?loop = "AddSubdomain_listen r lifetime Parse now subdomain ?addr targetPort
      (Listen_HTTP (cfg r)) ph0 False"
  from assms(2,3) have "\<exists>w\<in>set (Listen_HTTP (cfg r)).
      ListenPort w = ListenPort v \<and> (TargetPort w = targetPort \<or> localMode (cfg r))"
    by auto
  with AddSubdomain_listen_extends [OF assms(1) l assms(5), of r Parse subdomain targetPort
      "Listen_HTTP (cfg r)" False]
  have r: "lookup (fst ?loop) (ListenPort v) ?addr = Some (hp\<lparr>timer := now + lifetime\<rparr>)" "snd ?loop"
    by auto
  obtain ph' proxy where lp: "?loop = (ph', proxy)" by (cases ?loop) auto
  with r have "proxy" "lookup ph' (ListenPort v) ?addr = Some (hp\<lparr>timer := now + lifetime\<rparr>)"
    by simp_all
  with d lp show "\<not> snd (AddSubdomain r lifetime Parse now subdomain ipaddress targetPort)"
    and "registered (fst (AddSubdomain r lifetime Parse now subdomain ipaddress targetPort)) subdomain
           (ListenPort v) ?addr = Some (hp\<lparr>timer := now + lifetime\<rparr>)"
    by (simp_all add: AddSubdomain_def Let_def registered_def)
qed

text \<open>
  Claim C1, as stated, fails: a handler registered at time 0 with the lifetime of 30 s and
  looked up at 10 s is returned, and its timer still fires at 30 s, not at 40 s.
\<close>

theorem FindHandler_extend_counterexample:
  "fst (FindHandler registry_one (10 * second) ''feature-x'' 8080 [''10.0.0.5:80'']) =
     Some (upstream_example ''feature-x'' ''10.0.0.5:80'') \<and>
   registered (snd (FindHandler registry_one (10 * second) ''feature-x'' 8080 [''10.0.0.5:80'']))
       ''feature-x'' 8080 ''10.0.0.5:80'' =
     Some \<lparr>handler = upstream_example ''feature-x'' ''10.0.0.5:80'', timer = 30 * second\<rparr> \<and>
   10 * second + lifetime_example = 40 * second"
  by (simp add: FindHandler_one)
    (simp add: registry_one_eq registered_def lookup_def second_def lifetime_example_def
      NewReverseProxy_def cfg_example_def proxyHandlerLifetime_init_def)

text \<open>
  Claim C1, amended. Whenever \<open>FindHandler\<close> returns a handler, that handler is live, it is
  registered under the name the subdomain resolves to, and it stays registered with its
  timer as it was: the lookup does not reset the timer. The timer is reset by \<open>AddSubdomain\<close>
  (through \<open>exists\<close>): when a handler is registered under \<open>subdomain\<close> for the listen port of a
  mapping that serves the target port (any mapping in local mode) and for the address that
  \<open>AddSubdomain\<close> is called with, and it is live, then the call logs no warning and leaves it
  registered with its timer at \<open>now + proxyHandlerLifetime\<close>, the full lifetime from now. Here
  \<open>lifetime\<close> is the value of the package variable, which is positive: it is 30 seconds at the
  start and a constructor leaves it positive (lemma \<open>NewReverseProxy_lifetime\<close>).
\<close>

theorem FindHandler_keeps_timer:
  "(FindHandler r now subdomain port order = (Some h, r') \<longrightarrow>
      (\<exists>name addr hp. resolves r subdomain name \<and> registered r name port addr = Some hp \<and>
         handler hp = h \<and> now < timer hp \<and> registered r' name port addr = Some hp)) \<and>
   (0 < lifetime \<and> v \<in> set (Listen_HTTP (cfg r)) \<and>
    (TargetPort v = targetPort \<or> localMode (cfg r)) \<and>
    registered r name (ListenPort v) (JoinHostPort ipaddress (Itoa targetPort)) = Some hp \<and>
    now < timer hp \<longrightarrow>
      \<not> snd (AddSubdomain r lifetime Parse now name ipaddress targetPort) \<and>
      registered (fst (AddSubdomain r lifetime Parse now name ipaddress targetPort)) name
          (ListenPort v) (JoinHostPort ipaddress (Itoa targetPort)) =
        Some (hp\<lparr>timer := now + lifetime\<rparr>))"
  using FindHandler_found [of r now subdomain port order h r']
    AddSubdomain_extends [of lifetime v r targetPort name ipaddress hp now Parse]
  by blast

theorem FindHandler_keeps_timer_witness:
  "(\<exists>name addr hp. resolves registry_one ''feature-x'' name \<and>
       registered registry_one name 8080 addr = Some hp \<and>
       handler hp = upstream_example ''feature-x'' ''10.0.0.5:80'' \<and> 10 * second < timer hp \<and>
       registered registry_one name 8080 addr = Some hp) \<and>
   \<not> snd (AddSubdomain registry_one lifetime_example Parse_example (10 * second)
       ''feature-x'' ''10.0.0.5'' 80) \<and>
   registered (fst (AddSubdomain registry_one lifetime_example Parse_example (10 * second)
       ''feature-x'' ''10.0.0.5'' 80)) ''feature-x'' 8080 ''10.0.0.5:80'' =
     Some \<lparr>handler = upstream_example ''feature-x'' ''10.0.0.5:80'', timer = 40 * second\<rparr>"
proof -
  let ?hp = "\<lparr>handler = upstream_example ''feature-x'' ''10.0.0.5:80'', timer = 30 * second\<rparr>"
  let ?v = "\<lparr>ListenPort = 8080, TargetPort = 80, RequireAuthCookie = False\<rparr>"
  have p: "0 < lifetime_example" and lt: "lifetime_example = 30 * second"
    by (simp_all add: lifetime_example_def NewReverseProxy_def cfg_example_def
        proxyHandlerLifetime_init_def second_def)
  have v: "?v \<in> set (Listen_HTTP (cfg registry_one))" "TargetPort ?v = 80" "ListenPort ?v = 8080"
    by (simp_all add: registry_one_eq cfg_example_def)
  have l: "registered registry_one ''feature-x'' (ListenPort ?v) (JoinHostPort ''10.0.0.5'' (Itoa 80)) =
      Some ?hp"
    by (simp add: registry_one_eq registered_def lookup_def addr_examples)
  have t: "10 * second < timer ?hp" by (simp add: second_def)
  from FindHandler_keeps_timer [of registry_one "10 * second" "''feature-x''" 8080 "[''10.0.0.5:80'']"
      "upstream_example ''feature-x'' ''10.0.0.5:80''" registry_one lifetime_example ?v 80
      "''feature-x''" "''10.0.0.5''" ?hp Parse_example] FindHandler_one p v(1,2) l t
  have "(\<exists>name addr hp. resolves registry_one ''feature-x'' name \<and>
       registered registry_one name 8080 addr = Some hp \<and>
       handler hp = upstream_example ''feature-x'' ''10.0.0.5:80'' \<and> 10 * second < timer hp \<and>
       registered registry_one name 8080 addr = Some hp) \<and>
    \<not> snd (AddSubdomain registry_one lifetime_example Parse_example (10 * second)
       ''feature-x'' ''10.0.0.5'' 80) \<and>
    registered (fst (AddSubdomain registry_one lifetime_example Parse_example (10 * second)
       ''feature-x'' ''10.0.0.5'' 80)) ''feature-x'' (ListenPort ?v)
       (JoinHostPort ''10.0.0.5'' (Itoa 80)) = Some (?hp\<lparr>timer := 10 * second + lifetime_example\<rparr>)"
    by blast
  then show ?thesis by (simp add: addr_examples lt second_def)
qed

subsection \<open>Which lookups find a handler\<close>

text \<open>
  Claim C2, as stated, fails: \<open>pr-1\<close> is registered with a handler for port 8081 only, the
  pattern \<open>pr-*\<close> matches \<open>pr-1\<close> and has a live handler for port 8080, and the lookup of
  \<open>pr-1\<close> on port 8080 returns nil.
\<close>

theorem FindHandler_exact_counterexample:
  "fst (FindHandler registry_two (10 * second) ''pr-1'' 8080 [''10.0.0.6:80'', ''10.0.0.5:81'']) = None \<and>
   ''pr-*'' \<in> set (domains registry_two) \<and> fst (Match ''pr-*'' ''pr-1'') \<and>
   registered registry_two ''pr-*'' 8080 ''10.0.0.6:80'' =
     Some \<lparr>handler = upstream_example ''pr-*'' ''10.0.0.6:80'', timer = 30 * second\<rparr> \<and>
   alive \<lparr>handler = upstream_example ''pr-*'' ''10.0.0.6:80'', timer = 30 * second\<rparr> (10 * second)"
  by (simp add: FindHandler_two_exact Match_examples)
    (simp add: registry_two_eq registered_def lookup_def alive_def second_def)

text \<open>
  Claim C2, amended. Let \<open>order\<close>, the order in which Go visits the addresses, contain every
  address registered for the port. Then \<open>FindHandler\<close> returns a handler if and only if a live
  handler is registered for the port under the name the subdomain resolves to: the subdomain
  itself when it is a registered name, otherwise the first registered name whose pattern
  matches it. When it returns nil, no handler is left for the port under that name. The lookup
  adds and changes no handler, and it deletes no live one.
\<close>

theorem FindHandler_iff:
  assumes "\<forall>name addr. registered r name port addr \<noteq> None \<longrightarrow> addr \<in> set order"
  shows "(fst (FindHandler r now s port order) \<noteq> None \<longleftrightarrow>
            (\<exists>name addr hp. resolves r s name \<and> registered r name port addr = Some hp \<and>
               now < timer hp)) \<and>
         (fst (FindHandler r now s port order) = None \<longrightarrow>
            (\<forall>name addr. resolves r s name \<longrightarrow>
               registered (snd (FindHandler r now s port order)) name port addr = None)) \<and>
         (\<forall>n q addr hp. registered (snd (FindHandler r now s port order)) n q addr = Some hp \<longrightarrow>
            registered r n q addr = Some hp) \<and>
         (\<forall>n q addr hp. registered r n q addr = Some hp \<and> now < timer hp \<longrightarrow>
            registered (snd (FindHandler r now s port order)) n q addr = Some hp)"
proof -
  obtain res r' where f: "FindHandler r now s port order = (res, r')"
    by (cases "FindHandler r now s port order") auto
  have 1: "res \<noteq> None \<longleftrightarrow>
      (\<exists>name addr hp. resolves r s name \<and> registered r name port addr = Some hp \<and> now < timer hp)"
    by (rule FindHandler_result [OF f assms])
  have 2: "res = None \<longrightarrow> (\<forall>name addr. resolves r s name \<longrightarrow> registered r' name port addr = None)"
    using FindHandler_none [OF _ assms] f by blast
  have 3: "\<forall>n q addr hp. registered r' n q addr = Some hp \<longrightarrow> registered r n q addr = Some hp"
    using FindHandler_sub [OF f] by blast
  have 4: "\<forall>n q addr hp. registered r n q addr = Some hp \<and> now < timer hp \<longrightarrow>
      registered r' n q addr = Some hp"
    using FindHandler_keeps_live [OF f] by blast
  from 1 2 3 4 show ?thesis unfolding f fst_conv snd_conv by blast
qed

lemma registry_two_cover:
  "\<forall>name addr. registered registry_two name 8080 addr \<noteq> None \<longrightarrow> addr \<in> set [''10.0.0.6:80'']"
  by (auto simp: registry_two_eq registered_def lookup_def split: if_splits)

lemma registry_two_resolves: "resolves registry_two ''pr-42'' ''pr-*''"
  by (simp add: resolves_def registry_two_eq Match_examples)

theorem FindHandler_iff_witness:
  "fst (FindHandler registry_two (10 * second) ''pr-42'' 8080 [''10.0.0.6:80'']) =
     Some (upstream_example ''pr-*'' ''10.0.0.6:80'') \<and>
   fst (FindHandler registry_two (40 * second) ''pr-42'' 8080 [''10.0.0.6:80'']) = None \<and>
   registered (snd (FindHandler registry_two (40 * second) ''pr-42'' 8080 [''10.0.0.6:80'']))
     ''pr-*'' 8080 ''10.0.0.6:80'' = None"
proof -
  let ?late = "FindHandler registry_two (40 * second) ''pr-42'' 8080 [''10.0.0.6:80'']"
  from FindHandler_iff [OF registry_two_cover, of "40 * second" "''pr-42''"]
  have "fst ?late = None \<longrightarrow>
      (\<forall>name addr. resolves registry_two ''pr-42'' name \<longrightarrow> registered (snd ?late) name 8080 addr = None)"
    by (elim conjE)
  with FindHandler_two_expired registry_two_resolves
  have "registered (snd ?late) ''pr-*'' 8080 ''10.0.0.6:80'' = None" by blast
  with FindHandler_two_glob FindHandler_two_expired show ?thesis by simp
qed

subsection \<open>Adding a subdomain that no listener serves\<close>

lemma AddSubdomain_listen_skip:
  assumes "\<not> localMode (cfg r)" and "\<forall>v\<in>set vs. TargetPort v \<noteq> targetPort"
  shows "AddSubdomain_listen r lifetime Parse now subdomain addr targetPort vs ph proxy = (ph, proxy)"
  using assms(2) by (induction vs) (simp_all add: assms(1))

text \<open>
  Claim C3, as stated, fails for the access-counter map: adding \<open>feature-x\<close> with target port
  8000, which none of the two listeners serves, logs the warning and registers a counter for
  \<open>feature-x\<close>, which had none.
\<close>

theorem AddSubdomain_counter_counterexample:
  "snd (AddSubdomain registry_new lifetime_example Parse_example 0 ''feature-x'' ''10.0.0.5'' 8000) \<and>
   \<not> localMode cfg_example \<and> map TargetPort (Listen_HTTP cfg_example) = [80, 81] \<and>
   accessCounters registry_new ''feature-x'' = None \<and>
   accessCounters
     (fst (AddSubdomain registry_new lifetime_example Parse_example 0 ''feature-x'' ''10.0.0.5'' 8000))
     ''feature-x'' = Some (NewAccessCounter (60 * second))"
  by (simp add: registry_eval)

text \<open>
  Claim C3, amended: in non-local mode, when no listen mapping has the target port,
  \<open>AddSubdomain\<close> logs the warning and leaves the domain map and the ordered domain list as they
  were; the access-counter map is as it was except that a new counter is registered for the
  subdomain if it had none.
\<close>

theorem AddSubdomain_no_listener:
  assumes "\<not> localMode (cfg r)"
    and "\<forall>v\<in>set (Listen_HTTP (cfg r)). TargetPort v \<noteq> targetPort"
  shows "snd (AddSubdomain r lifetime Parse now subdomain ipaddress targetPort) \<and>
         domainMap (fst (AddSubdomain r lifetime Parse now subdomain ipaddress targetPort)) = domainMap r \<and>
         domains (fst (AddSubdomain r lifetime Parse now subdomain ipaddress targetPort)) = domains r \<and>
         accessCounters (fst (AddSubdomain r lifetime Parse now subdomain ipaddress targetPort)) =
           (case accessCounters r subdomain of
              Some c \<Rightarrow> accessCounters r
            | None \<Rightarrow> (accessCounters r)(subdomain \<mapsto> NewAccessCounter (accessCounterUnit r)))"
proof (cases "domainMap r subdomain")
  case None
  then show ?thesis
    by (simp add: AddSubdomain_def Let_def AddSubdomain_listen_skip [OF assms])
next
  case (Some ph0)
  then have "(domainMap r)(subdomain \<mapsto> ph0) = domainMap r" by (rule map_upd_triv)
  with Some show ?thesis
    by (simp add: AddSubdomain_def Let_def AddSubdomain_listen_skip [OF assms])
qed

theorem AddSubdomain_no_listener_witness:
  "snd (AddSubdomain registry_one lifetime_example Parse_example (10 * second) ''feature-x'' ''10.0.0.5'' 8000) \<and>
   domainMap (fst (AddSubdomain registry_one lifetime_example Parse_example (10 * second) ''feature-x'' ''10.0.0.5'' 8000)) =
     domainMap registry_one \<and>
   domains (fst (AddSubdomain registry_one lifetime_example Parse_example (10 * second) ''feature-x'' ''10.0.0.5'' 8000)) =
     [''feature-x''] \<and>
   accessCounters (fst (AddSubdomain registry_one lifetime_example Parse_example (10 * second) ''feature-x'' ''10.0.0.5'' 8000)) =
     accessCounters registry_one \<and>
   accessCounters (fst (AddSubdomain registry_one lifetime_example Parse_example (10 * second) ''other'' ''10.0.0.5'' 8000))
     ''other'' = Some (NewAccessCounter (60 * second))"
proof -
  have a: "\<not> localMode (cfg registry_one)"
    and b: "\<forall>v\<in>set (Listen_HTTP (cfg registry_one)). TargetPort v \<noteq> 8000"
    by (simp_all add: registry_one_eq cfg_example_def)
  from AddSubdomain_no_listener [OF a b, of lifetime_example Parse_example "10 * second" "''feature-x''"
      "''10.0.0.5''"]
    AddSubdomain_no_listener [OF a b, of lifetime_example Parse_example "10 * second" "''other''"
      "''10.0.0.5''"]
  show ?thesis by (simp add: registry_one_eq)
qed

end
